theory Spec2Isabelle
  imports Main "HOL-Library.Word" "HOL-Library.AList"
begin

section \<open>The cache agent: paths, filesystem, file operations, dispatcher, connection\<close>

text \<open>
  A shallow embedding of \<^verbatim>\<open>src/index.js\<close>. The agent's own functions
  (\<^verbatim>\<open>listFiles\<close>, \<^verbatim>\<open>readFile\<close>, \<^verbatim>\<open>writeFile\<close>, \<^verbatim>\<open>getCacheInfo\<close>,
  \<^verbatim>\<open>handleRequest\<close>, \<^verbatim>\<open>handleMessage\<close>, \<^verbatim>\<open>send\<close>, \<^verbatim>\<open>scheduleReconnect\<close>,
  \<^verbatim>\<open>connect\<close> and the socket callbacks) are translated line by line. What they call
  in the Node.js runtime (\<^verbatim>\<open>path.join\<close>, \<^verbatim>\<open>path.dirname\<close>, \<^verbatim>\<open>String.startsWith\<close>,
  the synchronous \<^verbatim>\<open>fs\<close> calls, the base64 codec of \<^verbatim>\<open>Buffer\<close>, timers) is modelled
  after the runtime's POSIX behaviour; each such model says so.
\<close>

subsection \<open>Strings and POSIX paths of the runtime\<close>

text \<open>\<^verbatim>\<open>s.startsWith(p)\<close>: a comparison of characters, nothing path-aware.\<close>

definition startsWith :: "string \<Rightarrow> string \<Rightarrow> bool" where
  "startsWith s p = (take (length p) s = p)"

text \<open>Cutting a string at every occurrence of a separator; empty pieces are kept.\<close>

fun split_on :: "char \<Rightarrow> string \<Rightarrow> string list" where
  "split_on c [] = [[]]"
| "split_on c (x # xs) =
     (if x = c then [] # split_on c xs
      else (case split_on c xs of
              [] \<Rightarrow> [[x]]
            | s # ss \<Rightarrow> (x # s) # ss))"

fun join_segs :: "string list \<Rightarrow> string" where
  "join_segs [] = []"
| "join_segs [s] = s"
| "join_segs (s # t # ss) = s @ ''/'' @ join_segs (t # ss)"

text \<open>
  \<^verbatim>\<open>normalizeString\<close> of the runtime's \<^verbatim>\<open>path\<close> module, on the pieces between
  slashes: empty pieces and \<^verbatim>\<open>.\<close> vanish, \<^verbatim>\<open>..\<close> removes the piece before it unless
  there is none or it is itself \<^verbatim>\<open>..\<close>; then \<^verbatim>\<open>..\<close> is kept only where going above
  the start is allowed (relative paths).
\<close>

definition norm_step :: "bool \<Rightarrow> string list \<Rightarrow> string \<Rightarrow> string list" where
  "norm_step allowAboveRoot res seg =
     (if seg = [] \<or> seg = ''.'' then res
      else if seg = ''..'' then
        (if res \<noteq> [] \<and> last res \<noteq> ''..'' then butlast res
         else if allowAboveRoot then res @ [''..'']
         else res)
      else res @ [seg])"

definition normalizeString :: "string \<Rightarrow> bool \<Rightarrow> string list" where
  "normalizeString p allowAboveRoot = foldl (norm_step allowAboveRoot) [] (split_on CHR ''/'' p)"

text \<open>\<^verbatim>\<open>path.posix.normalize\<close>.\<close>

definition normalize :: "string \<Rightarrow> string" where
  "normalize p =
     (if p = [] then ''.''
      else
        let isAbsolute = (hd p = CHR ''/'');
            trailingSeparator = (last p = CHR ''/'');
            q = join_segs (normalizeString p (\<not> isAbsolute))
        in if q = [] then
             (if isAbsolute then ''/'' else if trailingSeparator then ''./'' else ''.'')
           else
             (if isAbsolute then ''/'' else []) @ q @ (if trailingSeparator then ''/'' else []))"

text \<open>\<^verbatim>\<open>path.posix.join\<close> of two strings: empty arguments are left out.\<close>

definition path_join :: "string \<Rightarrow> string \<Rightarrow> string" where
  "path_join a b =
     (if a = [] \<and> b = [] then ''.''
      else if a = [] then normalize b
      else if b = [] then normalize a
      else normalize (a @ ''/'' @ b))"

text \<open>
  \<^verbatim>\<open>path.posix.dirname\<close>: from the end, skip slashes, skip the last name, and cut
  at the slash before it (looking at positions 1 and up only).
\<close>

definition dirname :: "string \<Rightarrow> string" where
  "dirname p =
     (if p = [] then ''.''
      else
        let hasRoot = (hd p = CHR ''/'');
            afterName = dropWhile (\<lambda>c. c \<noteq> CHR ''/'')
                          (dropWhile (\<lambda>c. c = CHR ''/'') (rev (tl p)));
            end = length afterName
        in if afterName = [] then (if hasRoot then ''/'' else ''.'')
           else if hasRoot \<and> end = 1 then ''//''
           else take end p)"

text \<open>
  What \<^verbatim>\<open>path.resolve\<close> returns (line 35): an absolute path in normal form, with no
  slash at the end unless it is the root.
\<close>

definition is_resolved :: "string \<Rightarrow> bool" where
  "is_resolved R = (R \<noteq> [] \<and> hd R = CHR ''/'' \<and> normalize R = R
                     \<and> (R = ''/'' \<or> last R \<noteq> CHR ''/''))"

subsection \<open>Errors thrown in the agent\<close>

datatype errno = ENOENT | ENOTDIR | EISDIR | EEXIST | ENAMETOOLONG

text \<open>
  A thrown value: \<^verbatim>\<open>new Error(msg)\<close> of the agent's own code, a \<^verbatim>\<open>TypeError\<close> of the
  runtime, or a filesystem error with its code, system call and, where the runtime
  reports one, path.
\<close>

datatype js_error = Error string | TypeError string | SystemError errno string "string option"

fun errno_text :: "errno \<Rightarrow> string" where
  "errno_text ENOENT = ''ENOENT: no such file or directory''"
| "errno_text ENOTDIR = ''ENOTDIR: not a directory''"
| "errno_text EISDIR = ''EISDIR: illegal operation on a directory''"
| "errno_text EEXIST = ''EEXIST: file already exists''"
| "errno_text ENAMETOOLONG = ''ENAMETOOLONG: name too long''"

text \<open>\<^verbatim>\<open>err.message\<close>.\<close>

fun message :: "js_error \<Rightarrow> string" where
  "message (Error m) = m"
| "message (TypeError m) = m"
| "message (SystemError e call p) =
     errno_text e @ '', '' @ call
     @ (case p of None \<Rightarrow> [] | Some q \<Rightarrow> '' '' @ [CHR 0x27] @ q @ [CHR 0x27])"

subsection \<open>The filesystem under the agent\<close>

text \<open>
  Regular files and directories; a directory lists its entries in the order the system
  reports them. Symbolic links, special files, permissions and a full disk are outside the
  model; the limits on names and paths are those of Linux. The field \<open>calls\<close> is a ghost record of every \<^verbatim>\<open>fs\<close> call made, so that
  "touches the filesystem" is a property of the state.
\<close>

type_synonym byte = "8 word"

datatype node = File "byte list" | Dir "(string \<times> node) list"

datatype fs_call =
  Readdir string | Stat string | Exists string | ReadFile string | Mkdir string | WriteFile string

record world =
  tree :: node
  calls :: "fs_call list"

definition fs_segments :: "string \<Rightarrow> string list" where
  "fs_segments p = filter (\<lambda>s. s \<noteq> []) (split_on CHR ''/'' p)"

primrec lookup :: "string list \<Rightarrow> node \<Rightarrow> errno + node" where
  "lookup [] n = Inr n"
| "lookup (s # ss) n =
     (case n of
        File _ \<Rightarrow> Inl ENOTDIR
      | Dir es \<Rightarrow> (case map_of es s of None \<Rightarrow> Inl ENOENT | Some c \<Rightarrow> lookup ss c))"

text \<open>A path ending in a slash names a directory or nothing.\<close>

definition resolve :: "node \<Rightarrow> string \<Rightarrow> errno + node" where
  "resolve t p =
     (case lookup (fs_segments p) t of
        Inl e \<Rightarrow> Inl e
      | Inr (Dir es) \<Rightarrow> Inr (Dir es)
      | Inr (File bs) \<Rightarrow> if p \<noteq> [] \<and> last p = CHR ''/'' then Inl ENOTDIR else Inr (File bs))"

text \<open>
  The limits of the system on a path handed to a call that creates something: a name of
  at most 255 bytes, a path of fewer than 4096 (a string is taken as its UTF-8 bytes).
\<close>

definition NAME_MAX :: nat where
  "NAME_MAX = 255"

definition PATH_MAX :: nat where
  "PATH_MAX = 4096"

text \<open>
  \<^verbatim>\<open>mkdir -p\<close>: existing directories are accepted, missing ones are appended; a name
  over the limit is refused where the walk reaches it.
\<close>

primrec mkdirp :: "string list \<Rightarrow> node \<Rightarrow> errno + node" where
  "mkdirp [] n = (case n of Dir es \<Rightarrow> Inr n | File _ \<Rightarrow> Inl EEXIST)"
| "mkdirp (s # ss) n =
     (case n of
        File _ \<Rightarrow> Inl ENOTDIR
      | Dir es \<Rightarrow>
          if NAME_MAX < length s then Inl ENAMETOOLONG
          else
            (case mkdirp ss (case map_of es s of None \<Rightarrow> Dir [] | Some c \<Rightarrow> c) of
               Inl e \<Rightarrow> Inl e
             | Inr c' \<Rightarrow> Inr (Dir (AList.update s c' es))))"

text \<open>
  Writing a whole file: the parent must be a directory, the target not one, and no name on
  the way over the limit.
\<close>

primrec write_node :: "string list \<Rightarrow> byte list \<Rightarrow> node \<Rightarrow> errno + node" where
  "write_node [] bs n = (case n of Dir es \<Rightarrow> Inl EISDIR | File _ \<Rightarrow> Inr (File bs))"
| "write_node (s # ss) bs n =
     (case n of
        File _ \<Rightarrow> Inl ENOTDIR
      | Dir es \<Rightarrow>
          if NAME_MAX < length s then Inl ENAMETOOLONG
          else
            (case map_of es s of
               None \<Rightarrow> if ss = [] then Inr (Dir (AList.update s (File bs) es)) else Inl ENOENT
             | Some c \<Rightarrow>
                 (case write_node ss bs c of
                    Inl e \<Rightarrow> Inl e
                  | Inr c' \<Rightarrow> Inr (Dir (AList.update s c' es)))))"

type_synonym 'a outcome = "(js_error + 'a) \<times> world"

definition and_then :: "'a outcome \<Rightarrow> ('a \<Rightarrow> world \<Rightarrow> 'b outcome) \<Rightarrow> 'b outcome" where
  "and_then r k = (case r of (Inl e, w) \<Rightarrow> (Inl e, w) | (Inr x, w) \<Rightarrow> k x w)"

definition called :: "fs_call \<Rightarrow> world \<Rightarrow> world" where
  "called c w = w\<lparr>calls := calls w @ [c]\<rparr>"

text \<open>\<^verbatim>\<open>fs.existsSync\<close> never throws.\<close>

definition existsSync :: "string \<Rightarrow> world \<Rightarrow> bool \<times> world" where
  "existsSync p w = (\<not> isl (resolve (tree w) p), called (Exists p) w)"

text \<open>
  \<^verbatim>\<open>fs.Stats\<close>: the agent reads \<^verbatim>\<open>isFile()\<close> and \<^verbatim>\<open>size\<close>. The size reported for a
  directory depends on the system; the agent never reads it for a directory.
\<close>

record stats =
  st_isFile :: bool
  st_isDirectory :: bool
  st_size :: nat

definition dir_st_size :: nat where
  "dir_st_size = 4096"

definition stats_of :: "node \<Rightarrow> stats" where
  "stats_of n =
     (case n of
        File bs \<Rightarrow> \<lparr>st_isFile = True, st_isDirectory = False, st_size = length bs\<rparr>
      | Dir es \<Rightarrow> \<lparr>st_isFile = False, st_isDirectory = True, st_size = dir_st_size\<rparr>)"

definition statSync :: "string \<Rightarrow> world \<Rightarrow> stats outcome" where
  "statSync p w =
     (case resolve (tree w) p of
        Inl e \<Rightarrow> (Inl (SystemError e ''stat'' (Some p)), called (Stat p) w)
      | Inr n \<Rightarrow> (Inr (stats_of n), called (Stat p) w))"

text \<open>\<^verbatim>\<open>fs.Dirent\<close>, as \<^verbatim>\<open>readdirSync(p, {withFileTypes: true})\<close> returns it.\<close>

record dirent =
  d_name :: string
  d_isDirectory :: bool

definition is_dir :: "node \<Rightarrow> bool" where
  "is_dir n = (case n of Dir _ \<Rightarrow> True | File _ \<Rightarrow> False)"

definition readdir_entries :: "string \<Rightarrow> world \<Rightarrow> ((string \<times> node) list) outcome" where
  "readdir_entries p w =
     (case resolve (tree w) p of
        Inl e \<Rightarrow> (Inl (SystemError e ''scandir'' (Some p)), called (Readdir p) w)
      | Inr (File bs) \<Rightarrow> (Inl (SystemError ENOTDIR ''scandir'' (Some p)), called (Readdir p) w)
      | Inr (Dir es) \<Rightarrow> (Inr es, called (Readdir p) w))"

definition readdirSync :: "string \<Rightarrow> world \<Rightarrow> (string list) outcome" where
  "readdirSync p w = and_then (readdir_entries p w) (\<lambda>es w'. (Inr (map fst es), w'))"

definition readdirSync_withFileTypes :: "string \<Rightarrow> world \<Rightarrow> (dirent list) outcome" where
  "readdirSync_withFileTypes p w =
     and_then (readdir_entries p w)
       (\<lambda>es w'. (Inr (map (\<lambda>(n, c). \<lparr>d_name = n, d_isDirectory = is_dir c\<rparr>) es), w'))"

definition readFileSync :: "string \<Rightarrow> world \<Rightarrow> (byte list) outcome" where
  "readFileSync p w =
     (case resolve (tree w) p of
        Inl e \<Rightarrow> (Inl (SystemError e ''open'' (Some p)), called (ReadFile p) w)
      | Inr (Dir es) \<Rightarrow> (Inl (SystemError EISDIR ''read'' None), called (ReadFile p) w)
      | Inr (File bs) \<Rightarrow> (Inr bs, called (ReadFile p) w))"

text \<open>
  The runtime validates a path before it goes to the system: a string with a NUL character
  throws a \<^verbatim>\<open>TypeError\<close> (code \<^verbatim>\<open>ERR_INVALID_ARG_VALUE\<close>) and nothing is called. The
  message ends with a rendering of the received string, which is left out here.
\<close>

definition has_null_byte :: "string \<Rightarrow> bool" where
  "has_null_byte p = (CHR 0x00 \<in> set p)"

definition null_byte_error :: js_error where
  "null_byte_error =
     TypeError (''The argument '' @ [CHR 0x27] @ ''path'' @ [CHR 0x27]
                @ '' must be a string, Uint8Array, or URL without null bytes.'')"

text \<open>\<^verbatim>\<open>fs.mkdirSync(p, {recursive: true})\<close>.\<close>

definition mkdirSync_recursive :: "string \<Rightarrow> world \<Rightarrow> unit outcome" where
  "mkdirSync_recursive p w =
     (if has_null_byte p then (Inl null_byte_error, w)
      else if PATH_MAX \<le> length p then
        (Inl (SystemError ENAMETOOLONG ''mkdir'' (Some p)), called (Mkdir p) w)
      else
        (case mkdirp (fs_segments p) (tree w) of
           Inl e \<Rightarrow> (Inl (SystemError e ''mkdir'' (Some p)), called (Mkdir p) w)
         | Inr t \<Rightarrow> (Inr (), called (Mkdir p) (w\<lparr>tree := t\<rparr>))))"

text \<open>
  \<^verbatim>\<open>fs.writeFileSync(p, buffer)\<close>, which opens for writing and creating. With a slash
  at the end the system answers \<^verbatim>\<open>EISDIR\<close> even where the same path without it could
  be written.
\<close>

definition writeFileSync :: "string \<Rightarrow> byte list \<Rightarrow> world \<Rightarrow> unit outcome" where
  "writeFileSync p buf w =
     (if has_null_byte p then (Inl null_byte_error, w)
      else if PATH_MAX \<le> length p then
        (Inl (SystemError ENAMETOOLONG ''open'' (Some p)), called (WriteFile p) w)
      else
        (case write_node (fs_segments p) buf (tree w) of
           Inl e \<Rightarrow> (Inl (SystemError e ''open'' (Some p)), called (WriteFile p) w)
         | Inr t \<Rightarrow>
             if p \<noteq> [] \<and> last p = CHR ''/'' then
               (Inl (SystemError EISDIR ''open'' (Some p)), called (WriteFile p) w)
             else (Inr (), called (WriteFile p) (w\<lparr>tree := t\<rparr>))))"

subsection \<open>The base64 codec of \<open>Buffer\<close>\<close>

definition b64_alphabet :: string where
  "b64_alphabet = ''ABCDEFGHIJKLMNOPQRSTUVWXYZabcdefghijklmnopqrstuvwxyz0123456789+/''"

definition b64_char :: "nat \<Rightarrow> char" where
  "b64_char n = b64_alphabet ! (n mod 64)"

text \<open>\<^verbatim>\<open>buffer.toString('base64')\<close>: three bytes give four characters, padded with \<^verbatim>\<open>=\<close>.\<close>

fun base64_encode :: "byte list \<Rightarrow> string" where
  "base64_encode [] = []"
| "base64_encode [a] =
     [b64_char (unat a div 4), b64_char (unat a mod 4 * 16), CHR ''='', CHR ''='']"
| "base64_encode [a, b] =
     [b64_char (unat a div 4), b64_char (unat a mod 4 * 16 + unat b div 16),
      b64_char (unat b mod 16 * 4), CHR ''='']"
| "base64_encode (a # b # c # bs) =
     [b64_char (unat a div 4), b64_char (unat a mod 4 * 16 + unat b div 16),
      b64_char (unat b mod 16 * 4 + unat c div 64), b64_char (unat c mod 64)]
     @ base64_encode bs"

text \<open>
  The value of a base64 character; the decoder also takes the URL-safe \<^verbatim>\<open>-\<close> and
  \<^verbatim>\<open>_\<close>.
\<close>

definition unbase64 :: "char \<Rightarrow> nat option" where
  "unbase64 c =
     (if c = CHR ''-'' then Some 62 else if c = CHR ''_'' then Some 63
      else map_of (zip b64_alphabet [0 ..< 64]) c)"

text \<open>
  \<^verbatim>\<open>Buffer.from(s, 'base64')\<close> never throws on a string: characters outside the
  alphabet are skipped, decoding stops at the first \<^verbatim>\<open>=\<close>, and what is left of a last
  incomplete group gives the bytes it determines.
\<close>

fun sextets :: "string \<Rightarrow> nat list" where
  "sextets [] = []"
| "sextets (c # cs) =
     (if c = CHR ''='' then []
      else (case unbase64 c of None \<Rightarrow> sextets cs | Some n \<Rightarrow> n # sextets cs))"

fun bytes_of_sextets :: "nat list \<Rightarrow> byte list" where
  "bytes_of_sextets (p # q # r # s # rest) =
     [of_nat (p * 4 + q div 16), of_nat (q mod 16 * 16 + r div 4), of_nat (r mod 4 * 64 + s)]
     @ bytes_of_sextets rest"
| "bytes_of_sextets [p, q, r] = [of_nat (p * 4 + q div 16), of_nat (q mod 16 * 16 + r div 4)]"
| "bytes_of_sextets [p, q] = [of_nat (p * 4 + q div 16)]"
| "bytes_of_sextets [p] = []"
| "bytes_of_sextets [] = []"

definition base64_decode :: "string \<Rightarrow> byte list" where
  "base64_decode s = bytes_of_sextets (sextets s)"

subsection \<open>Cache file operations (lines 188 to 269)\<close>

text \<open>
  The \<^verbatim>\<open>params\<close> object of a request, seen through the properties the agent reads.
  A property holds a string or is absent; \<open>None\<close> for the whole object stands for an
  envelope without \<^verbatim>\<open>params\<close>.
\<close>

record params =
  p_subdir :: "string option"
  p_filePath :: "string option"
  p_data :: "string option"
  p_encoding :: "string option"

record file_info =
  fi_name :: string
  fi_isDirectory :: bool
  fi_size :: nat

record read_result =
  rd_data :: string
  rd_size :: nat

record write_result =
  written :: nat

record cache_info =
  ci_path :: string
  ci_fileCount :: nat
  ci_totalSize :: nat
  ci_files :: "string list"

definition access_denied :: js_error where
  "access_denied = Error ''Access denied: path traversal attempt''"

definition not_found :: "string \<Rightarrow> js_error" where
  "not_found filePath = Error (''File not found: '' @ filePath)"

text \<open>What the runtime throws where the agent hands it \<^verbatim>\<open>undefined\<close>.\<close>

definition destructure_error :: js_error where
  "destructure_error =
     TypeError (''Cannot destructure property '' @ [CHR 0x27] @ ''filePath'' @ [CHR 0x27]
                @ '' of '' @ [CHR 0x27] @ ''params'' @ [CHR 0x27] @ '' as it is undefined.'')"

definition path_type_error :: js_error where
  "path_type_error =
     TypeError (''The '' @ [CHR 0x22] @ ''path'' @ [CHR 0x22]
                @ '' argument must be of type string. Received undefined'')"

definition buffer_type_error :: js_error where
  "buffer_type_error = TypeError ''The first argument must be of type string or an instance of Buffer, ArrayBuffer, or Array or an Array-like Object. Received undefined''"

text \<open>One element of the \<^verbatim>\<open>files.map\<close> of \<^verbatim>\<open>listFiles\<close> (lines 197 to 201).\<close>

definition describe :: "string \<Rightarrow> dirent \<Rightarrow> world \<Rightarrow> file_info outcome" where
  "describe targetPath f w =
     (if d_isDirectory f then
        (Inr \<lparr>fi_name = d_name f, fi_isDirectory = True, fi_size = 0\<rparr>, w)
      else
        and_then (statSync (path_join targetPath (d_name f)) w)
          (\<lambda>st w'. (Inr \<lparr>fi_name = d_name f, fi_isDirectory = False, fi_size = st_size st\<rparr>, w')))"

fun describe_all :: "string \<Rightarrow> dirent list \<Rightarrow> world \<Rightarrow> (file_info list) outcome" where
  "describe_all targetPath [] w = (Inr [], w)"
| "describe_all targetPath (f # fs) w =
     and_then (describe targetPath f w)
       (\<lambda>d w'. and_then (describe_all targetPath fs w') (\<lambda>ds w''. (Inr (d # ds), w'')))"

text \<open>\<^verbatim>\<open>listFiles(params)\<close>, with \<open>resolvedPath\<close> the cache root.\<close>

definition listFiles :: "string \<Rightarrow> params option \<Rightarrow> world \<Rightarrow> (file_info list) outcome" where
  "listFiles resolvedPath ps w =
     (let subdir = (case ps of
                      None \<Rightarrow> []
                    | Some p \<Rightarrow> (case p_subdir p of None \<Rightarrow> [] | Some s \<Rightarrow> s));
          targetPath = path_join resolvedPath subdir
      in if \<not> startsWith targetPath resolvedPath then (Inl access_denied, w)
         else and_then (readdirSync_withFileTypes targetPath w) (describe_all targetPath))"

text \<open>\<^verbatim>\<open>readFile(params)\<close>.\<close>

definition readFile :: "string \<Rightarrow> params option \<Rightarrow> world \<Rightarrow> read_result outcome" where
  "readFile resolvedPath ps w =
     (case ps of
        None \<Rightarrow> (Inl destructure_error, w)
      | Some p \<Rightarrow>
          (case p_filePath p of
             None \<Rightarrow> (Inl path_type_error, w)
           | Some filePath \<Rightarrow>
               let targetPath = path_join resolvedPath filePath
               in if \<not> startsWith targetPath resolvedPath then (Inl access_denied, w)
                  else
                    (case existsSync targetPath w of
                       (False, w1) \<Rightarrow> (Inl (not_found filePath), w1)
                     | (True, w1) \<Rightarrow>
                         and_then (readFileSync targetPath w1)
                           (\<lambda>buf w2. (Inr \<lparr>rd_data = base64_encode buf, rd_size = length buf\<rparr>, w2)))))"

text \<open>\<^verbatim>\<open>writeFile(params)\<close>.\<close>

definition writeFile :: "string \<Rightarrow> params option \<Rightarrow> world \<Rightarrow> write_result outcome" where
  "writeFile resolvedPath ps w =
     (case ps of
        None \<Rightarrow> (Inl destructure_error, w)
      | Some p \<Rightarrow>
          (case p_filePath p of
             None \<Rightarrow> (Inl path_type_error, w)
           | Some filePath \<Rightarrow>
               let targetPath = path_join resolvedPath filePath
               in if \<not> startsWith targetPath resolvedPath then (Inl access_denied, w)
                  else
                    and_then (mkdirSync_recursive (dirname targetPath) w)
                      (\<lambda>_ w1.
                         (case p_data p of
                            None \<Rightarrow> (Inl buffer_type_error, w1)
                          | Some data \<Rightarrow>
                              let buffer = base64_decode data
                              in and_then (writeFileSync targetPath buffer w1)
                                   (\<lambda>_ w2. (Inr \<lparr>written = length buffer\<rparr>, w2))))))"

text \<open>The \<^verbatim>\<open>for\<close> loop of \<^verbatim>\<open>getCacheInfo\<close> (lines 256 to 261).\<close>

fun total_size :: "string \<Rightarrow> string list \<Rightarrow> nat \<Rightarrow> world \<Rightarrow> nat outcome" where
  "total_size resolvedPath [] totalSize w = (Inr totalSize, w)"
| "total_size resolvedPath (file # files) totalSize w =
     and_then (statSync (path_join resolvedPath file) w)
       (\<lambda>stat w'. total_size resolvedPath files
                     (if st_isFile stat then totalSize + st_size stat else totalSize) w')"

text \<open>\<^verbatim>\<open>getCacheInfo()\<close>; \<^verbatim>\<open>files.slice(0, 50)\<close> is \<open>take 50\<close>.\<close>

definition getCacheInfo :: "string \<Rightarrow> world \<Rightarrow> cache_info outcome" where
  "getCacheInfo resolvedPath w =
     and_then (readdirSync resolvedPath w)
       (\<lambda>files w1.
          and_then (total_size resolvedPath files 0 w1)
            (\<lambda>totalSize w2.
               (Inr \<lparr>ci_path = resolvedPath, ci_fileCount = length files,
                     ci_totalSize = totalSize, ci_files = take 50 files\<rparr>, w2)))"

subsection \<open>Messages, the socket and the agent's variables\<close>

text \<open>
  An inbound JSON value as the agent reads it: \<^verbatim>\<open>JSON.parse\<close> gives \<^verbatim>\<open>null\<close>, on which
  reading a property throws, or a value whose properties \<^verbatim>\<open>type\<close>, \<^verbatim>\<open>requestId\<close>,
  \<^verbatim>\<open>action\<close>, \<^verbatim>\<open>params\<close>, \<^verbatim>\<open>sessionToken\<close> and \<^verbatim>\<open>message\<close> are strings (an
  object for \<^verbatim>\<open>params\<close>) or absent.
\<close>

record inbound =
  m_type :: "string option"
  m_requestId :: "string option"
  m_action :: "string option"
  m_params :: "params option"
  m_sessionToken :: "string option"
  m_message :: "string option"

datatype parsed = JsonNull | JsonValue inbound

datatype action_result =
  Listing "file_info list" | FileData read_result | Written write_result | CacheInfo cache_info

text \<open>
  The object given to \<^verbatim>\<open>send\<close> by \<^verbatim>\<open>handleRequest\<close>; a property the object literal
  does not have is \<open>None\<close>.
\<close>

record response =
  r_requestId :: "string option"
  r_success :: bool
  r_data :: "action_result option"
  r_error :: "string option"

datatype outbound = Register string string "string list" | Response response

datatype ready_state = CONNECTING | OPEN | CLOSING | CLOSED

text \<open>
  A line of console output with the text of its template; the pictograms in front and the
  further arguments of the call are left out.
\<close>

datatype console_line = Log string | Warn string | Err string

text \<open>What is fixed at startup (lines 35 and 43).\<close>

record config =
  resolvedPath :: string
  cacheFiles :: "string list"

text \<open>
  The module's variables \<^verbatim>\<open>ws\<close> (its \<^verbatim>\<open>readyState\<close>, \<open>None\<close> for \<^verbatim>\<open>null\<close>),
  \<^verbatim>\<open>sessionToken\<close> and \<^verbatim>\<open>reconnectTimeout\<close> (the handle of the timer), with the
  filesystem, the runtime's armed timers as pairs of handle and delay, the frames given to
  \<^verbatim>\<open>ws.send\<close> and the console.
\<close>

record agent =
  fs :: world
  ws :: "ready_state option"
  sessionToken :: "string option"
  reconnectTimeout :: "nat option"
  timers :: "(nat \<times> nat) list"
  timer_seq :: nat
  outbox :: "outbound list"
  console :: "console_line list"

definition RECONNECT_DELAY :: nat where
  "RECONNECT_DELAY = 5000"

definition console_log :: "string \<Rightarrow> agent \<Rightarrow> agent" where
  "console_log l st = st\<lparr>console := console st @ [Log l]\<rparr>"

definition console_error :: "string \<Rightarrow> agent \<Rightarrow> agent" where
  "console_error l st = st\<lparr>console := console st @ [Err l]\<rparr>"

text \<open>A value inside a template string: \<^verbatim>\<open>undefined\<close> prints as such.\<close>

definition template :: "string option \<Rightarrow> string" where
  "template v = (case v of None \<Rightarrow> ''undefined'' | Some s \<Rightarrow> s)"

text \<open>\<^verbatim>\<open>send(msg)\<close> (lines 274 to 278).\<close>

definition send :: "outbound \<Rightarrow> agent \<Rightarrow> agent" where
  "send msg st = (if ws st = Some OPEN then st\<lparr>outbox := outbox st @ [msg]\<rparr> else st)"

subsection \<open>The dispatcher (lines 107 to 183)\<close>

definition run_action :: "config \<Rightarrow> string option \<Rightarrow> params option \<Rightarrow> world \<Rightarrow> action_result outcome" where
  "run_action cfg action ps w =
     (if action = Some ''listFiles'' then
        and_then (listFiles (resolvedPath cfg) ps w) (\<lambda>r w'. (Inr (Listing r), w'))
      else if action = Some ''readFile'' then
        and_then (readFile (resolvedPath cfg) ps w) (\<lambda>r w'. (Inr (FileData r), w'))
      else if action = Some ''writeFile'' then
        and_then (writeFile (resolvedPath cfg) ps w) (\<lambda>r w'. (Inr (Written r), w'))
      else if action = Some ''getCacheInfo'' then
        and_then (getCacheInfo (resolvedPath cfg) w) (\<lambda>r w'. (Inr (CacheInfo r), w'))
      else (Inl (Error (''Unknown action: '' @ template action)), w))"

text \<open>\<^verbatim>\<open>handleRequest(msg)\<close>: the \<^verbatim>\<open>try\<close> sends the result, the \<^verbatim>\<open>catch\<close> the message.\<close>

definition handleRequest :: "config \<Rightarrow> inbound \<Rightarrow> agent \<Rightarrow> agent" where
  "handleRequest cfg msg st =
     (let requestId = m_requestId msg; action = m_action msg; ps = m_params msg;
          st0 = console_log (''Request: '' @ template action) st
      in case run_action cfg action ps (fs st0) of
           (Inr result, w) \<Rightarrow>
             console_log (''Response sent for '' @ template action)
               (send (Response \<lparr>r_requestId = requestId, r_success = True,
                                 r_data = Some result, r_error = None\<rparr>)
                     (st0\<lparr>fs := w\<rparr>))
         | (Inl err, w) \<Rightarrow>
             console_error (''Error handling '' @ template action @ '': '' @ message err)
               (send (Response \<lparr>r_requestId = requestId, r_success = False,
                                 r_data = None, r_error = Some (message err)\<rparr>)
                     (st0\<lparr>fs := w\<rparr>)))"

text \<open>\<^verbatim>\<open>handleMessage(msg)\<close>; the banner lines around the token are left out.\<close>

definition handleMessage :: "config \<Rightarrow> inbound \<Rightarrow> agent \<Rightarrow> agent" where
  "handleMessage cfg msg st =
     (if m_type msg = Some ''registered'' then
        console_log ''Waiting for requests...''
          (console_log (''Your session token: '' @ template (m_sessionToken msg))
             (st\<lparr>sessionToken := m_sessionToken msg\<rparr>))
      else if m_type msg = Some ''request'' then handleRequest cfg msg st
      else if m_type msg = Some ''error'' then
        console_error (''Server error: '' @ template (m_message msg)) st
      else console_log (''Unknown message type: '' @ template (m_type msg)) st)"

text \<open>
  The \<^verbatim>\<open>message\<close> callback (lines 84 to 91). \<open>JSON_parse\<close> is the runtime's parser,
  \<open>None\<close> where it throws a \<^verbatim>\<open>SyntaxError\<close>. A parsed \<^verbatim>\<open>null\<close> makes
  \<^verbatim>\<open>msg.type\<close> throw inside the same \<^verbatim>\<open>try\<close>.
\<close>

definition ws_on_message :: "config \<Rightarrow> (string \<Rightarrow> parsed option) \<Rightarrow> string \<Rightarrow> agent \<Rightarrow> agent" where
  "ws_on_message cfg JSON_parse payload st =
     (case JSON_parse payload of
        None \<Rightarrow> console_error ''Failed to parse message:'' st
      | Some JsonNull \<Rightarrow> console_error ''Failed to parse message:'' st
      | Some (JsonValue msg) \<Rightarrow> handleMessage cfg msg st)"

subsection \<open>The connection (lines 67 to 102 and 283 to 291)\<close>

text \<open>\<^verbatim>\<open>scheduleReconnect()\<close>: \<^verbatim>\<open>setTimeout\<close> arms a timer and returns its handle.\<close>

definition scheduleReconnect :: "agent \<Rightarrow> agent" where
  "scheduleReconnect st =
     (if reconnectTimeout st \<noteq> None then st
      else
        (console_log ''Reconnecting in 5s...'' st)
          \<lparr>reconnectTimeout := Some (timer_seq st),
           timers := timers st @ [(timer_seq st, RECONNECT_DELAY)],
           timer_seq := Suc (timer_seq st)\<rparr>)"

text \<open>\<^verbatim>\<open>connect()\<close>: a new socket starts in state \<^verbatim>\<open>CONNECTING\<close>.\<close>

definition connect :: "agent \<Rightarrow> agent" where
  "connect st = (console_log ''Connecting to Neptune server...'' st)\<lparr>ws := Some CONNECTING\<rparr>"

text \<open>The \<^verbatim>\<open>open\<close> callback; \<open>agentId\<close> is the random identifier drawn for it.\<close>

definition ws_on_open :: "config \<Rightarrow> string \<Rightarrow> agent \<Rightarrow> agent" where
  "ws_on_open cfg agentId st =
     send (Register agentId (resolvedPath cfg) (take 20 (cacheFiles cfg)))
       (console_log ''Connected to Neptune server'' (st\<lparr>ws := Some OPEN\<rparr>))"

text \<open>The \<^verbatim>\<open>close\<close> callback (lines 93 to 97); the socket is \<^verbatim>\<open>CLOSED\<close> by then.\<close>

definition ws_on_close :: "agent \<Rightarrow> agent" where
  "ws_on_close st =
     scheduleReconnect
       ((console_log ''Disconnected from server'' (st\<lparr>ws := Some CLOSED\<rparr>))
          \<lparr>sessionToken := None\<rparr>)"

definition ws_on_error :: "string \<Rightarrow> agent \<Rightarrow> agent" where
  "ws_on_error m st = console_error (''WebSocket error: '' @ m) st"

text \<open>
  The timer's callback (lines 287 to 290), run by the runtime for an armed timer, which
  it disarms; a handle that is not armed never fires.
\<close>

definition timer_fired :: "nat \<Rightarrow> agent \<Rightarrow> agent" where
  "timer_fired h st =
     (if h \<in> fst ` set (timers st) then
        connect (st\<lparr>timers := filter (\<lambda>t. fst t \<noteq> h) (timers st), reconnectTimeout := None\<rparr>)
      else st)"

datatype event =
  WsOpen string | WsMessage string | WsClose | WsError string | TimerFired nat

fun step :: "config \<Rightarrow> (string \<Rightarrow> parsed option) \<Rightarrow> agent \<Rightarrow> event \<Rightarrow> agent" where
  "step cfg JSON_parse st (WsOpen agentId) = ws_on_open cfg agentId st"
| "step cfg JSON_parse st (WsMessage payload) = ws_on_message cfg JSON_parse payload st"
| "step cfg JSON_parse st WsClose = ws_on_close st"
| "step cfg JSON_parse st (WsError m) = ws_on_error m st"
| "step cfg JSON_parse st (TimerFired h) = timer_fired h st"

text \<open>The state after lines 60 to 62 and the \<^verbatim>\<open>connect()\<close> of line 301.\<close>

definition initial :: "world \<Rightarrow> agent" where
  "initial w =
     connect \<lparr>fs = w, ws = None, sessionToken = None, reconnectTimeout = None,
              timers = [], timer_seq = 0, outbox = [], console = []\<rparr>"

definition run :: "config \<Rightarrow> (string \<Rightarrow> parsed option) \<Rightarrow> world \<Rightarrow> event list \<Rightarrow> agent" where
  "run cfg JSON_parse w evs = foldl (step cfg JSON_parse) (initial w) evs"

subsection \<open>Example inputs\<close>

text \<open>
  A cache at \<^verbatim>\<open>/a/b\<close> holding \<^verbatim>\<open>a.txt\<close> (the four bytes of "test") and an empty
  directory \<^verbatim>\<open>b\<close>, beside a directory \<^verbatim>\<open>/a/bc\<close> that is not part of the cache.
\<close>

definition example_tree :: node where
  "example_tree =
     Dir [(''a'', Dir [(''b'', Dir [(''a.txt'', File [116, 101, 115, 116]), (''b'', Dir [])]),
                       (''bc'', Dir [(''secret'', File [1, 2, 3])])])]"

definition example_world :: world where
  "example_world = \<lparr>tree = example_tree, calls = []\<rparr>"

definition for_path :: "string \<Rightarrow> params" where
  "for_path P =
     \<lparr>p_subdir = Some P, p_filePath = Some P, p_data = Some ''dGVzdA=='', p_encoding = None\<rparr>"

definition example_config :: config where
  "example_config = \<lparr>resolvedPath = ''/a/b'', cacheFiles = [''a.txt'', ''b'']\<rparr>"

definition example_request :: "string \<Rightarrow> inbound" where
  "example_request a =
     \<lparr>m_type = Some ''request'', m_requestId = Some ''r1'', m_action = Some a,
      m_params = None, m_sessionToken = None, m_message = None\<rparr>"

definition example_parse :: "string \<Rightarrow> parsed option" where
  "example_parse s =
     (if s = ''{request}'' then Some (JsonValue (example_request ''getCacheInfo''))
      else if s = ''null'' then Some JsonNull else None)"

text \<open>The agent once its first socket has opened.\<close>

definition open_agent :: agent where
  "open_agent = ws_on_open example_config ''0123456789abcdef'' (initial example_world)"

subsection \<open>Notions used in the statements\<close>



text \<open>The runtime holds exactly the timer whose handle is in \<^verbatim>\<open>reconnectTimeout\<close>.\<close>

definition timer_inv :: "agent \<Rightarrow> bool" where
  "timer_inv st =
     (timers st = (case reconnectTimeout st of None \<Rightarrow> [] | Some h \<Rightarrow> [(h, RECONNECT_DELAY)]))"

text \<open>
  A name that a directory entry can have, and the spelling of an absolute path from its
  names.
\<close>

definition proper_name :: "string \<Rightarrow> bool" where
  "proper_name s = (s \<noteq> [] \<and> CHR ''/'' \<notin> set s \<and> s \<noteq> ''.'' \<and> s \<noteq> ''..'')"

definition abs_path :: "string list \<Rightarrow> string" where
  "abs_path cs = CHR ''/'' # join_segs cs"

text \<open>
  The shape of every absolute path that \<^verbatim>\<open>path.normalize\<close> returns: proper names
  joined by single slashes, with at most a closing slash.
\<close>

definition normal_abs :: "string list \<Rightarrow> string \<Rightarrow> bool" where
  "normal_abs cs T = ((\<forall>s \<in> set cs. proper_name s)
                      \<and> (T = abs_path cs \<or> (cs \<noteq> [] \<and> T = abs_path cs @ ''/'')))"

text \<open>
  What every directory of a real filesystem satisfies: its entries have distinct, proper
  names.
\<close>

definition proper_entries :: "(string \<times> node) list \<Rightarrow> bool" where
  "proper_entries es = (distinct (map fst es) \<and> list_all proper_name (map fst es))"

text \<open>The byte length of a regular file, 0 for a directory.\<close>

definition file_size :: "node \<Rightarrow> nat" where
  "file_size c = (case c of File bs \<Rightarrow> length bs | Dir es \<Rightarrow> 0)"

definition info_of :: "string \<times> node \<Rightarrow> file_info" where
  "info_of e = \<lparr>fi_name = fst e, fi_isDirectory = is_dir (snd e), fi_size = file_size (snd e)\<rparr>"

text \<open>\<^verbatim>\<open>s.toLowerCase()\<close> on ASCII letters and \<^verbatim>\<open>s.includes(sub)\<close>.\<close>

definition toLowerCase :: "string \<Rightarrow> string" where
  "toLowerCase s =
     map (\<lambda>c. let k = of_char c :: nat in if 65 \<le> k \<and> k \<le> 90 then char_of (k + 32) else c) s"

definition str_includes :: "string \<Rightarrow> string \<Rightarrow> bool" where
  "str_includes s sub = list_ex (\<lambda>i. take (length sub) (drop i s) = sub) [0 ..< Suc (length s)]"

text \<open>
  Where a whole-file write can land: every name on the way that exists is a directory, and
  the last name is missing or a regular file.
\<close>

primrec admits :: "string list \<Rightarrow> node \<Rightarrow> bool" where
  "admits [] n = (case n of File _ \<Rightarrow> True | Dir _ \<Rightarrow> False)"
| "admits (s # ss) n =
     (case n of
        File _ \<Rightarrow> False
      | Dir es \<Rightarrow> (case map_of es s of None \<Rightarrow> True | Some c \<Rightarrow> admits ss c))"

definition admits_file :: "node \<Rightarrow> string \<Rightarrow> bool" where
  "admits_file t p = (p \<noteq> [] \<and> last p \<noteq> CHR ''/'' \<and> admits (fs_segments p) t)"

text \<open>
  A path that the runtime and the system take for creating something: no NUL character,
  shorter than the path limit, every name within the name limit.
\<close>

definition path_ok :: "string \<Rightarrow> bool" where
  "path_ok p = (\<not> has_null_byte p \<and> length p < PATH_MAX
                \<and> list_all (\<lambda>s. length s \<le> NAME_MAX) (fs_segments p))"

section \<open>Properties\<close>

subsection \<open>The containment check\<close>

text \<open>
  C1. The claim: an operation succeeds only if the joined and normalized path lies inside
  the root as a path prefix, so that a sibling \<^verbatim>\<open>/a/bc\<close> of the root \<^verbatim>\<open>/a/b\<close> is
  rejected. The code compares characters (\<^verbatim>\<open>startsWith\<close>): at the root \<^verbatim>\<open>/a/b\<close> the
  relative paths \<^verbatim>\<open>../bc\<close> and \<^verbatim>\<open>../bc/secret\<close> leave the root, pass the check, and
  all three operations go through; \<^verbatim>\<open>writeFile\<close> overwrites a file outside the cache.
\<close>

theorem sibling_directory_passes_guard:
  "path_join ''/a/b'' ''../bc/secret'' = ''/a/bc/secret''
   \<and> startsWith ''/a/bc/secret'' ''/a/b''
   \<and> fst (readFile ''/a/b'' (Some (for_path ''../bc/secret'')) example_world)
       = Inr \<lparr>rd_data = ''AQID'', rd_size = 3\<rparr>
   \<and> fst (listFiles ''/a/b'' (Some (for_path ''../bc'')) example_world)
       = Inr [\<lparr>fi_name = ''secret'', fi_isDirectory = False, fi_size = 3\<rparr>]
   \<and> fst (writeFile ''/a/b'' (Some (for_path ''../bc/secret'')) example_world)
       = Inr \<lparr>written = 4\<rparr>
   \<and> tree (snd (writeFile ''/a/b'' (Some (for_path ''../bc/secret'')) example_world))
       = Dir [(''a'', Dir [(''b'', Dir [(''a.txt'', File [116, 101, 115, 116]), (''b'', Dir [])]),
                           (''bc'', Dir [(''secret'', File [116, 101, 115, 116])])])]"
  by code_simp

text \<open>
  C2. When the resolved path fails the containment check, each of \<^verbatim>\<open>listFiles\<close>,
  \<^verbatim>\<open>readFile\<close> and \<^verbatim>\<open>writeFile\<close> throws the access-denied error and leaves the world
  as it was: the tree is unchanged and no filesystem call has been made, not even a read.
\<close>

theorem guard_violation_touches_nothing:
  assumes "\<not> startsWith (path_join R P) R"
  shows "listFiles R (Some (ps\<lparr>p_subdir := Some P\<rparr>)) w = (Inl access_denied, w)
       \<and> readFile R (Some (ps\<lparr>p_filePath := Some P\<rparr>)) w = (Inl access_denied, w)
       \<and> writeFile R (Some (ps\<lparr>p_filePath := Some P\<rparr>)) w = (Inl access_denied, w)"
  using assms by (simp add: listFiles_def readFile_def writeFile_def Let_def)

theorem guard_violation_touches_nothing_witness:
  "\<not> startsWith (path_join ''/a/b'' ''../x'') ''/a/b''
   \<and> listFiles ''/a/b'' (Some ((for_path ''q'')\<lparr>p_subdir := Some ''../x''\<rparr>)) example_world
       = (Inl access_denied, example_world)
   \<and> readFile ''/a/b'' (Some ((for_path ''q'')\<lparr>p_filePath := Some ''../x''\<rparr>)) example_world
       = (Inl access_denied, example_world)
   \<and> writeFile ''/a/b'' (Some ((for_path ''q'')\<lparr>p_filePath := Some ''../x''\<rparr>)) example_world
       = (Inl access_denied, example_world)"
proof -
  have g: "\<not> startsWith (path_join ''/a/b'' ''../x'') ''/a/b''" by code_simp
  from guard_violation_touches_nothing [OF g] g show ?thesis by blast
qed

subsection \<open>Dispatcher and connection\<close>

lemma outbox_console [simp]:
  "outbox (console_log l st) = outbox st" "outbox (console_error l st) = outbox st"
  "ws (console_log l st) = ws st" "ws (console_error l st) = ws st"
  "fs (console_log l st) = fs st" "fs (console_error l st) = fs st"
  "timers (console_log l st) = timers st" "timers (console_error l st) = timers st"
  "reconnectTimeout (console_log l st) = reconnectTimeout st"
  "reconnectTimeout (console_error l st) = reconnectTimeout st"
  "timer_seq (console_log l st) = timer_seq st" "timer_seq (console_error l st) = timer_seq st"
  "sessionToken (console_log l st) = sessionToken st"
  "sessionToken (console_error l st) = sessionToken st"
  by (simp_all add: console_log_def console_error_def)

lemma send_fields [simp]:
  "ws (send m st) = ws st" "fs (send m st) = fs st" "timers (send m st) = timers st"
  "reconnectTimeout (send m st) = reconnectTimeout st" "timer_seq (send m st) = timer_seq st"
  "sessionToken (send m st) = sessionToken st"
  by (simp_all add: send_def)







text \<open>
  C8. A payload on which \<^verbatim>\<open>JSON.parse\<close> throws, or which parses to \<^verbatim>\<open>null\<close>, is
  logged with \<^verbatim>\<open>console.error\<close> and dropped: nothing but the console changes, so no
  response of any kind is sent, and the run goes on with the events that follow.
\<close>

theorem unparsable_payload_is_dropped:
  assumes "JSON_parse payload = None \<or> JSON_parse payload = Some JsonNull"
  shows "ws_on_message cfg JSON_parse payload st
           = st\<lparr>console := console st @ [Err ''Failed to parse message:'']\<rparr>
       \<and> outbox (ws_on_message cfg JSON_parse payload st) = outbox st
       \<and> fs (ws_on_message cfg JSON_parse payload st) = fs st
       \<and> run cfg JSON_parse w (evs @ WsMessage payload # evs')
           = foldl (step cfg JSON_parse)
               (console_error ''Failed to parse message:'' (run cfg JSON_parse w evs)) evs'"
  using assms by (auto simp: ws_on_message_def console_error_def run_def)

theorem unparsable_payload_is_dropped_witness:
  "(example_parse ''{junk'' = None \<or> example_parse ''{junk'' = Some JsonNull)
   \<and> outbox (ws_on_message example_config example_parse ''{junk'' open_agent) = outbox open_agent
   \<and> outbox (run example_config example_parse example_world
               ([WsOpen ''0123456789abcdef''] @ WsMessage ''{junk'' # [WsMessage ''{request}'']))
       = [Register ''0123456789abcdef'' ''/a/b'' [''a.txt'', ''b''],
          Response \<lparr>r_requestId = Some ''r1'', r_success = True,
                    r_data = Some (CacheInfo \<lparr>ci_path = ''/a/b'', ci_fileCount = 2,
                                               ci_totalSize = 4, ci_files = [''a.txt'', ''b'']\<rparr>),
                    r_error = None\<rparr>]"
proof -
  have p: "example_parse ''{junk'' = None \<or> example_parse ''{junk'' = Some JsonNull"
    by (simp add: example_parse_def)
  have r: "outbox (foldl (step example_config example_parse)
             (console_error ''Failed to parse message:''
                (run example_config example_parse example_world [WsOpen ''0123456789abcdef'']))
             [WsMessage ''{request}''])
       = [Register ''0123456789abcdef'' ''/a/b'' [''a.txt'', ''b''],
          Response \<lparr>r_requestId = Some ''r1'', r_success = True,
                    r_data = Some (CacheInfo \<lparr>ci_path = ''/a/b'', ci_fileCount = 2,
                                               ci_totalSize = 4, ci_files = [''a.txt'', ''b'']\<rparr>),
                    r_error = None\<rparr>]"
    by code_simp
  from unparsable_payload_is_dropped [of example_parse "''{junk''" example_config open_agent
       example_world "[WsOpen ''0123456789abcdef'']" "[WsMessage ''{request}'']", OF p] p r
  show ?thesis by simp
qed

lemma handleRequest_timer [simp]:
  "timers (handleRequest cfg msg st) = timers st"
  "reconnectTimeout (handleRequest cfg msg st) = reconnectTimeout st"
  by (simp_all add: handleRequest_def Let_def split: prod.splits sum.splits)

lemma handleMessage_timer [simp]:
  "timers (handleMessage cfg msg st) = timers st"
  "reconnectTimeout (handleMessage cfg msg st) = reconnectTimeout st"
  by (simp_all add: handleMessage_def)

lemma timer_inv_step: "timer_inv st \<Longrightarrow> timer_inv (step cfg JSON_parse st ev)"
proof (cases ev)
  case (WsMessage payload)
  assume "timer_inv st"
  then show ?thesis
    by (simp add: WsMessage timer_inv_def ws_on_message_def split: option.splits parsed.splits)
next
  case WsClose
  assume "timer_inv st"
  then show ?thesis
    by (simp add: WsClose timer_inv_def ws_on_close_def scheduleReconnect_def)
next
  case (TimerFired h)
  assume "timer_inv st"
  then show ?thesis
    by (auto simp: TimerFired timer_inv_def timer_fired_def connect_def console_log_def
             split: option.splits)
qed (simp_all add: timer_inv_def ws_on_open_def ws_on_error_def)

lemma timer_inv_foldl: "timer_inv st \<Longrightarrow> timer_inv (foldl (step cfg JSON_parse) st evs)"
  by (induction evs arbitrary: st) (simp_all add: timer_inv_step)

lemma timer_inv_run: "timer_inv (run cfg JSON_parse w evs)"
  unfolding run_def
  by (rule timer_inv_foldl) (simp add: timer_inv_def initial_def connect_def console_log_def)

text \<open>
  C9. In every state the agent can reach, the \<^verbatim>\<open>close\<close> callback clears the session
  token; it arms a timer of 5000 ms if none is pending and arms nothing otherwise, so at
  most one reconnect timer is armed before and after. After a close exactly one timer is
  armed and the socket stays closed; when that timer fires, the handle is cleared, no timer
  is left and \<^verbatim>\<open>connect\<close> runs once (a new socket in state \<^verbatim>\<open>CONNECTING\<close>); no other
  handle fires anything.
\<close>

theorem close_clears_token_and_arms_one_timer:
  fixes cfg JSON_parse w evs
  defines "st \<equiv> run cfg JSON_parse w evs"
  shows "sessionToken (ws_on_close st) = None
       \<and> (reconnectTimeout st = None \<longrightarrow>
            timers (ws_on_close st) = [(timer_seq st, 5000)]
            \<and> reconnectTimeout (ws_on_close st) = Some (timer_seq st))
       \<and> (reconnectTimeout st \<noteq> None \<longrightarrow>
            timers (ws_on_close st) = timers st
            \<and> reconnectTimeout (ws_on_close st) = reconnectTimeout st)
       \<and> length (timers st) \<le> 1
       \<and> length (timers (ws_on_close st)) \<le> 1
       \<and> (\<forall>t \<in> set (timers (ws_on_close st)). snd t = 5000)
       \<and> ws (ws_on_close st) = Some CLOSED
       \<and> (\<exists>h. reconnectTimeout (ws_on_close st) = Some h
              \<and> timers (ws_on_close st) = [(h, 5000)]
              \<and> step cfg JSON_parse (ws_on_close st) (TimerFired h)
                  = connect ((ws_on_close st)\<lparr>timers := [], reconnectTimeout := None\<rparr>)
              \<and> ws (timer_fired h (ws_on_close st)) = Some CONNECTING
              \<and> timers (timer_fired h (ws_on_close st)) = []
              \<and> reconnectTimeout (timer_fired h (ws_on_close st)) = None
              \<and> sessionToken (timer_fired h (ws_on_close st)) = None
              \<and> console (timer_fired h (ws_on_close st))
                  = console (ws_on_close st) @ [Log ''Connecting to Neptune server...'']
              \<and> (\<forall>h'. h' \<noteq> h \<longrightarrow> timer_fired h' (ws_on_close st) = ws_on_close st))"
proof -
  let ?c = "ws_on_close st"
  have i: "timer_inv st" unfolding st_def by (rule timer_inv_run)
  have "?c = step cfg JSON_parse st WsClose" by simp
  then have j: "timer_inv ?c" using i timer_inv_step by metis
  have first: "sessionToken ?c = None
       \<and> (reconnectTimeout st = None \<longrightarrow>
            timers ?c = [(timer_seq st, 5000)] \<and> reconnectTimeout ?c = Some (timer_seq st))
       \<and> (reconnectTimeout st \<noteq> None \<longrightarrow>
            timers ?c = timers st \<and> reconnectTimeout ?c = reconnectTimeout st)
       \<and> length (timers st) \<le> 1
       \<and> length (timers ?c) \<le> 1
       \<and> (\<forall>t \<in> set (timers ?c). snd t = 5000)
       \<and> ws ?c = Some CLOSED"
    using i j
    by (auto simp: timer_inv_def ws_on_close_def scheduleReconnect_def RECONNECT_DELAY_def
                   console_log_def
             split: option.splits)
  have "reconnectTimeout ?c \<noteq> None"
    by (simp add: ws_on_close_def scheduleReconnect_def)
  then obtain h where h: "reconnectTimeout ?c = Some h" by blast
  then have t: "timers ?c = [(h, 5000)]"
    using j by (simp add: timer_inv_def RECONNECT_DELAY_def)
  have f: "timer_fired h ?c = connect (?c\<lparr>timers := [], reconnectTimeout := None\<rparr>)"
    by (simp add: timer_fired_def t)
  have o: "timer_fired h' ?c = ?c" if "h' \<noteq> h" for h'
    using that by (simp add: timer_fired_def t)
  have "reconnectTimeout ?c = Some h
      \<and> timers ?c = [(h, 5000)]
      \<and> step cfg JSON_parse ?c (TimerFired h)
          = connect (?c\<lparr>timers := [], reconnectTimeout := None\<rparr>)
      \<and> ws (timer_fired h ?c) = Some CONNECTING
      \<and> timers (timer_fired h ?c) = []
      \<and> reconnectTimeout (timer_fired h ?c) = None
      \<and> sessionToken (timer_fired h ?c) = None
      \<and> console (timer_fired h ?c) = console ?c @ [Log ''Connecting to Neptune server...'']
      \<and> (\<forall>h'. h' \<noteq> h \<longrightarrow> timer_fired h' ?c = ?c)"
    using h t o first by (simp add: f connect_def console_log_def)
  then show ?thesis using first by blast
qed

theorem close_clears_token_and_arms_one_timer_witness:
  "reconnectTimeout (run example_config example_parse example_world [WsOpen ''0123456789abcdef'']) = None
   \<and> timers (run example_config example_parse example_world [WsOpen ''0123456789abcdef'', WsClose])
       = [(0, 5000)]
   \<and> reconnectTimeout (run example_config example_parse example_world
        [WsOpen ''0123456789abcdef'', WsClose]) \<noteq> None
   \<and> timers (run example_config example_parse example_world
        [WsOpen ''0123456789abcdef'', WsClose, WsClose]) = [(0, 5000)]
   \<and> sessionToken (run example_config example_parse example_world
        [WsOpen ''0123456789abcdef'', WsClose, WsClose]) = None
   \<and> ws (run example_config example_parse example_world
        [WsOpen ''0123456789abcdef'', WsClose, TimerFired 0]) = Some CONNECTING
   \<and> timers (run example_config example_parse example_world
        [WsOpen ''0123456789abcdef'', WsClose, TimerFired 0]) = []
   \<and> reconnectTimeout (run example_config example_parse example_world
        [WsOpen ''0123456789abcdef'', WsClose, TimerFired 0]) = None
   \<and> (7::nat) \<noteq> 0
   \<and> run example_config example_parse example_world
        [WsOpen ''0123456789abcdef'', WsClose, TimerFired 7]
       = run example_config example_parse example_world [WsOpen ''0123456789abcdef'', WsClose]"
proof -
  let ?o = "run example_config example_parse example_world [WsOpen ''0123456789abcdef'']"
  let ?oc = "run example_config example_parse example_world [WsOpen ''0123456789abcdef'', WsClose]"
  have a: "reconnectTimeout ?o = None" by code_simp
  have b: "reconnectTimeout ?oc \<noteq> None" by code_simp
  have c: "timer_seq ?o = 0" by code_simp
  have s: "run cfg p w (evs @ [WsClose]) = ws_on_close (run cfg p w evs)" for cfg p w evs
    by (simp add: run_def)
  have f: "run cfg p w (evs @ [TimerFired h]) = timer_fired h (run cfg p w evs)" for cfg p w evs h
    by (simp add: run_def)
  have oc: "ws_on_close ?o = ?oc" using s [of example_config example_parse example_world
    "[WsOpen ''0123456789abcdef'']"] by simp
  have fired: "run example_config example_parse example_world
        [WsOpen ''0123456789abcdef'', WsClose, TimerFired h] = timer_fired h ?oc" for h
    using f [of example_config example_parse example_world
      "[WsOpen ''0123456789abcdef'', WsClose]" h] by simp
  note one = close_clears_token_and_arms_one_timer
         [of example_config example_parse example_world "[WsOpen ''0123456789abcdef'']"]
  note two = close_clears_token_and_arms_one_timer
         [of example_config example_parse example_world "[WsOpen ''0123456789abcdef'', WsClose]"]
  from one a c have t0: "timers ?oc = [(0, 5000)]" "reconnectTimeout ?oc = Some 0"
    unfolding oc by simp_all
  from one obtain h where h: "reconnectTimeout ?oc = Some h"
      "ws (timer_fired h ?oc) = Some CONNECTING" "timers (timer_fired h ?oc) = []"
      "reconnectTimeout (timer_fired h ?oc) = None"
      "\<forall>h'. h' \<noteq> h \<longrightarrow> timer_fired h' ?oc = ?oc"
    unfolding oc by blast
  have h0: "h = 0" using h(1) t0(2) by simp
  have seven: "timer_fired 7 ?oc = ?oc" using h(5) h0 by simp
  from two b s [of example_config example_parse example_world "[WsOpen ''0123456789abcdef'', WsClose]"]
  have cc: "timers (run example_config example_parse example_world
        [WsOpen ''0123456789abcdef'', WsClose, WsClose]) = timers ?oc"
      "sessionToken (run example_config example_parse example_world
        [WsOpen ''0123456789abcdef'', WsClose, WsClose]) = None"
    by simp_all
  show ?thesis
    using a b t0 cc h(2,3,4) seven by (simp add: fired h0)
qed

subsection \<open>Paths in normal form\<close>

lemma split_on_not_Nil [simp]: "split_on c xs \<noteq> []"
  by (induction xs) (auto split: list.splits)

lemma split_on_append: "split_on c (xs @ c # ys) = split_on c xs @ split_on c ys"
  by (induction xs) (auto split: list.splits)

lemma split_on_absent: "c \<notin> set s \<Longrightarrow> split_on c s = [s]"
  by (induction s) (auto split: list.splits)

lemma split_on_pieces: "s \<in> set (split_on c p) \<Longrightarrow> c \<notin> set s"
  by (induction p arbitrary: s) (auto split: list.splits if_splits)

lemma split_join_segs:
  "cs \<noteq> [] \<Longrightarrow> \<forall>s \<in> set cs. CHR ''/'' \<notin> set s \<Longrightarrow> split_on CHR ''/'' (join_segs cs) = cs"
proof (induction cs rule: join_segs.induct)
  case (3 s t ss)
  then show ?case
    using split_on_append [of "CHR ''/''" s "join_segs (t # ss)"]
    by (simp add: split_on_absent)
qed (simp_all add: split_on_absent)

lemma join_segs_snoc:
  "cs \<noteq> [] \<Longrightarrow> join_segs (cs @ [c]) = join_segs cs @ CHR ''/'' # c"
  by (induction cs rule: join_segs.induct) simp_all

lemma join_segs_Nil_iff: "\<forall>s \<in> set cs. s \<noteq> [] \<Longrightarrow> join_segs cs = [] \<longleftrightarrow> cs = []"
  by (induction cs rule: join_segs.induct) simp_all

lemma norm_step_proper: "proper_name s \<Longrightarrow> norm_step a res s = res @ [s]"
  by (auto simp: norm_step_def proper_name_def)

lemma foldl_norm_step_proper:
  "\<forall>s \<in> set cs. proper_name s \<Longrightarrow> foldl (norm_step a) acc cs = acc @ cs"
  by (induction cs arbitrary: acc) (simp_all add: norm_step_proper)

lemma norm_step_keeps_proper:
  assumes "\<forall>s \<in> set res. proper_name s" and "CHR ''/'' \<notin> set seg"
  shows "\<forall>s \<in> set (norm_step False res seg). proper_name s"
  using assms by (auto simp: norm_step_def proper_name_def dest: in_set_butlastD)

lemma foldl_norm_step_keeps_proper:
  "\<forall>s \<in> set res. proper_name s \<Longrightarrow> \<forall>s \<in> set segs. CHR ''/'' \<notin> set s \<Longrightarrow>
   \<forall>s \<in> set (foldl (norm_step False) res segs). proper_name s"
proof (induction segs arbitrary: res)
  case (Cons seg segs)
  have "\<forall>s \<in> set (norm_step False res seg). proper_name s"
    using Cons.prems by (intro norm_step_keeps_proper) simp_all
  then show ?case using Cons.prems by (simp add: Cons.IH)
qed simp

lemma normalizeString_proper: "\<forall>s \<in> set (normalizeString p False). proper_name s"
  unfolding normalizeString_def
  by (rule foldl_norm_step_keeps_proper) (auto dest: split_on_pieces)

lemma split_abs_path:
  assumes "\<forall>s \<in> set cs. proper_name s"
  shows "split_on CHR ''/'' (abs_path cs) = [] # (if cs = [] then [[]] else cs)"
  using assms split_join_segs [of cs] by (auto simp: abs_path_def proper_name_def)

lemma split_abs_path_slash:
  assumes "\<forall>s \<in> set cs. proper_name s"
  shows "split_on CHR ''/'' (abs_path cs @ ''/'') = [] # (if cs = [] then [[]] else cs) @ [[]]"
  using split_on_append [of "CHR ''/''" "abs_path cs" "[]"] split_abs_path [OF assms] by simp

lemma proper_nonempty: "\<forall>s \<in> set cs. proper_name s \<Longrightarrow> filter (\<lambda>s. s \<noteq> []) cs = cs"
  by (induction cs) (auto simp: proper_name_def)

lemma fs_segments_abs_path:
  assumes "\<forall>s \<in> set cs. proper_name s"
  shows "fs_segments (abs_path cs) = cs" "fs_segments (abs_path cs @ ''/'') = cs"
  using assms by (simp_all add: fs_segments_def split_abs_path split_abs_path_slash proper_nonempty)

lemma norm_step_empty [simp]: "norm_step a res [] = res"
  by (simp add: norm_step_def)

lemma foldl_norm_abs_path:
  assumes "\<forall>s \<in> set cs. proper_name s"
  shows "foldl (norm_step a) [] (split_on CHR ''/'' (abs_path cs)) = cs"
    "foldl (norm_step a) [] (split_on CHR ''/'' (abs_path cs @ ''/'')) = cs"
  using assms foldl_norm_step_proper [of cs a "[]"]
  by (simp_all add: split_abs_path split_abs_path_slash)

lemma normalize_absolute:
  assumes "p \<noteq> []" "hd p = CHR ''/''"
  shows "normal_abs (normalizeString p False) (normalize p)"
proof -
  let ?cs = "normalizeString p False"
  have pr: "\<forall>s \<in> set ?cs. proper_name s" by (rule normalizeString_proper)
  then have ne: "join_segs ?cs = [] \<longleftrightarrow> ?cs = []"
    by (intro join_segs_Nil_iff) (auto simp: proper_name_def)
  show ?thesis
    using assms pr ne by (auto simp: normal_abs_def normalize_def Let_def abs_path_def)
qed

lemma normal_abs_facts:
  assumes "normal_abs cs T"
  shows "T \<noteq> []" "hd T = CHR ''/''" "fs_segments T = cs"
    "foldl (norm_step a) [] (split_on CHR ''/'' T) = cs"
  using assms fs_segments_abs_path [of cs] foldl_norm_abs_path [of cs a]
  by (auto simp: normal_abs_def abs_path_def)

lemma path_join_name:
  assumes "normal_abs cs T" "proper_name n"
  shows "path_join T n = abs_path (cs @ [n])"
proof -
  have T: "T \<noteq> []" "hd T = CHR ''/''" using normal_abs_facts [OF assms(1)] by blast+
  have n: "n \<noteq> []" "CHR ''/'' \<notin> set n" using assms(2) by (auto simp: proper_name_def)
  have sp: "split_on CHR ''/'' (T @ CHR ''/'' # n) = split_on CHR ''/'' T @ [n]"
    by (simp add: split_on_append split_on_absent n)
  have ns: "normalizeString (T @ CHR ''/'' # n) False = cs @ [n]"
    using normal_abs_facts(4) [OF assms(1), of False] assms(2)
    by (simp add: normalizeString_def sp norm_step_proper)
  have last: "last (T @ CHR ''/'' # n) \<noteq> CHR ''/''" using n by (metis last_appendR last_ConsR last_in_set list.distinct(1))
  have "join_segs (cs @ [n]) \<noteq> []"
    using n by (cases "cs = []") (simp_all add: join_segs_snoc)
  then show ?thesis
    using T n ns last by (simp add: path_join_def normalize_def Let_def abs_path_def)
qed

lemma path_join_normal:
  assumes "R \<noteq> []" "hd R = CHR ''/''"
  shows "\<exists>cs. normal_abs cs (path_join R P)"
proof (cases "P = []")
  case True
  then show ?thesis using assms normalize_absolute [of R] by (auto simp: path_join_def)
next
  case False
  then show ?thesis
    using assms normalize_absolute [of "R @ ''/'' @ P"] by (auto simp: path_join_def)
qed

lemma is_resolved_normal: "is_resolved R \<Longrightarrow> normal_abs (normalizeString R False) R"
  using normalize_absolute [of R] by (auto simp: is_resolved_def)

subsection \<open>Listing a directory\<close>

lemma lookup_append:
  "lookup (xs @ ys) t = (case lookup xs t of Inl e \<Rightarrow> Inl e | Inr n \<Rightarrow> lookup ys n)"
  by (induction xs arbitrary: t) (auto split: node.splits option.splits)

lemma resolve_Dir: "resolve t p = Inr (Dir es) \<Longrightarrow> lookup (fs_segments p) t = Inr (Dir es)"
  by (auto simp: resolve_def split: sum.splits node.splits if_splits)

lemma last_abs_path_snoc: "proper_name n \<Longrightarrow> last (abs_path (cs @ [n])) \<noteq> CHR ''/''"
proof -
  assume n: "proper_name n"
  then have "last (abs_path (cs @ [n])) = last n"
    by (cases "cs = []") (simp_all add: abs_path_def join_segs_snoc proper_name_def)
  moreover have "last n \<in> set n" using n by (simp add: proper_name_def)
  moreover have "CHR ''/'' \<notin> set n" using n by (simp add: proper_name_def)
  ultimately show ?thesis by metis
qed

lemma resolve_child:
  assumes T: "normal_abs cs T" and d: "resolve t T = Inr (Dir es)"
    and n: "proper_name n" and c: "map_of es n = Some c"
  shows "resolve t (path_join T n) = Inr c"
proof -
  have cs: "\<forall>s \<in> set (cs @ [n]). proper_name s" using T n by (auto simp: normal_abs_def)
  have "lookup cs t = Inr (Dir es)"
    using resolve_Dir [OF d] normal_abs_facts(3) [OF T] by simp
  then have "lookup (cs @ [n]) t = Inr c"
    using c by (simp add: lookup_append)
  then show ?thesis
    using last_abs_path_snoc [OF n, of cs] fs_segments_abs_path(1) [OF cs]
    by (simp add: path_join_name [OF T n] resolve_def split: node.splits)
qed

lemma called_tree [simp]: "tree (called c w) = tree w"
  by (simp add: called_def)

lemma statSync_child:
  assumes "normal_abs cs T" "resolve (tree w) T = Inr (Dir es)" "proper_name n"
    "map_of es n = Some c"
  shows "statSync (path_join T n) w = (Inr (stats_of c), called (Stat (path_join T n)) w)"
  using resolve_child [OF assms] by (simp add: statSync_def)

lemma describe_child:
  assumes "normal_abs cs T" "resolve (tree w) T = Inr (Dir es)" "proper_name n"
    "map_of es n = Some c"
  shows "fst (describe T \<lparr>d_name = n, d_isDirectory = is_dir c\<rparr> w) = Inr (info_of (n, c))"
    "tree (snd (describe T \<lparr>d_name = n, d_isDirectory = is_dir c\<rparr> w)) = tree w"
  using statSync_child [OF assms]
  by (auto simp: describe_def and_then_def info_of_def file_size_def is_dir_def stats_of_def
           split: node.splits)

lemma and_then_Inr:
  "r = (Inr x, w') \<Longrightarrow> and_then r k = k x w'"
  by (simp add: and_then_def)

lemma surj_outcome: "fst r = Inr x \<Longrightarrow> r = (Inr x, snd r)"
  by (cases r) simp

lemma describe_all_children:
  assumes T: "normal_abs cs T" and es: "distinct (map fst es)"
  shows "resolve (tree w) T = Inr (Dir es) \<Longrightarrow> set xs \<subseteq> set es \<Longrightarrow>
         \<forall>e \<in> set xs. proper_name (fst e) \<Longrightarrow>
         fst (describe_all T (map (\<lambda>(n, c). \<lparr>d_name = n, d_isDirectory = is_dir c\<rparr>) xs) w)
           = Inr (map info_of xs)
         \<and> tree (snd (describe_all T (map (\<lambda>(n, c). \<lparr>d_name = n, d_isDirectory = is_dir c\<rparr>) xs) w))
           = tree w"
proof (induction xs arbitrary: w)
  case Nil
  then show ?case by simp
next
  case (Cons e xs)
  obtain n c where e: "e = (n, c)" by (cases e)
  have m: "map_of es n = Some c"
    using Cons.prems(2) es e by (intro map_of_is_SomeI) simp_all
  have pn: "proper_name n" using Cons.prems(3) e by simp
  let ?d = "describe T \<lparr>d_name = n, d_isDirectory = is_dir c\<rparr> w"
  have d: "?d = (Inr (info_of (n, c)), snd ?d)" "tree (snd ?d) = tree w"
    using describe_child [OF T Cons.prems(1) pn m] by (simp_all add: surj_outcome)
  have r: "resolve (tree (snd ?d)) T = Inr (Dir es)" using d(2) Cons.prems(1) by simp
  let ?rest = "describe_all T (map (\<lambda>(n, c). \<lparr>d_name = n, d_isDirectory = is_dir c\<rparr>) xs) (snd ?d)"
  have ih: "?rest = (Inr (map info_of xs), snd ?rest)" "tree (snd ?rest) = tree (snd ?d)"
    using Cons.IH [OF r] Cons.prems(2,3) by (simp_all add: surj_outcome)
  show ?case
    apply (simp add: e)
    apply (subst and_then_Inr [OF d(1)])+
    apply (subst and_then_Inr [OF ih(1)])+
    apply (simp add: ih(2) d(2))
    done
qed

lemma readdir_withFileTypes_Dir:
  "resolve (tree w) T = Inr (Dir es) \<Longrightarrow>
   readdirSync_withFileTypes T w
     = (Inr (map (\<lambda>(n, c). \<lparr>d_name = n, d_isDirectory = is_dir c\<rparr>) es), called (Readdir T) w)"
  by (simp add: readdirSync_withFileTypes_def readdir_entries_def and_then_def)

lemma readdir_Dir:
  "resolve (tree w) T = Inr (Dir es) \<Longrightarrow>
   readdirSync T w = (Inr (map fst es), called (Readdir T) w)"
  by (simp add: readdirSync_def readdir_entries_def and_then_def)

lemma path_join_empty: "is_resolved R \<Longrightarrow> path_join R [] = R"
  by (simp add: path_join_def is_resolved_def)

lemma is_resolved_absolute: "is_resolved R \<Longrightarrow> R \<noteq> [] \<and> hd R = CHR ''/''"
  by (simp add: is_resolved_def)

text \<open>
  C5. For a directory that passes the containment check and has the entries \<open>es\<close>,
  \<^verbatim>\<open>listFiles\<close> returns one descriptor per entry, in order: the entry's name, whether
  it is a directory, and 0 for a directory or the byte length for a file. Nothing below a
  subdirectory appears, the tree is left as it was, and a request without \<^verbatim>\<open>params\<close>
  or without \<^verbatim>\<open>subdir\<close> lists the root.
\<close>

theorem listFiles_one_descriptor_per_child:
  assumes R: "is_resolved R"
    and guard: "startsWith (path_join R sub) R"
    and dir: "resolve (tree w) (path_join R sub) = Inr (Dir es)"
    and es: "proper_entries es"
  shows "fst (listFiles R (Some (ps\<lparr>p_subdir := Some sub\<rparr>)) w)
           = Inr (map (\<lambda>(n, c). \<lparr>fi_name = n, fi_isDirectory = is_dir c,
                                  fi_size = (case c of File bs \<Rightarrow> length bs | Dir _ \<Rightarrow> 0)\<rparr>) es)
       \<and> tree (snd (listFiles R (Some (ps\<lparr>p_subdir := Some sub\<rparr>)) w)) = tree w
       \<and> path_join R [] = R
       \<and> listFiles R None w = listFiles R (Some (ps\<lparr>p_subdir := Some []\<rparr>)) w
       \<and> listFiles R (Some (ps\<lparr>p_subdir := None\<rparr>)) w = listFiles R (Some (ps\<lparr>p_subdir := Some []\<rparr>)) w"
proof -
  let ?T = "path_join R sub"
  obtain cs where T: "normal_abs cs ?T"
    using path_join_normal is_resolved_absolute [OF R] by blast
  let ?ds = "map (\<lambda>(n, c). \<lparr>d_name = n, d_isDirectory = is_dir c\<rparr>) es"
  let ?w = "called (Readdir ?T) w"
  have dir': "resolve (tree ?w) ?T = Inr (Dir es)" using dir by simp
  have all: "fst (describe_all ?T ?ds ?w) = Inr (map info_of es)
           \<and> tree (snd (describe_all ?T ?ds ?w)) = tree ?w"
    using es by (intro describe_all_children [OF T _ dir'])
                (auto simp: proper_entries_def list_all_iff)
  have l: "listFiles R (Some (ps\<lparr>p_subdir := Some sub\<rparr>)) w = describe_all ?T ?ds ?w"
    using guard by (simp add: listFiles_def Let_def readdir_withFileTypes_Dir [OF dir] and_then_def)
  have i: "map info_of es = map (\<lambda>(n, c). \<lparr>fi_name = n, fi_isDirectory = is_dir c,
                                  fi_size = (case c of File bs \<Rightarrow> length bs | Dir _ \<Rightarrow> 0)\<rparr>) es"
    by (simp add: info_of_def file_size_def case_prod_unfold)
  show ?thesis
    using all l i by (simp add: path_join_empty [OF R] listFiles_def)
qed

theorem listFiles_one_descriptor_per_child_witness:
  "is_resolved ''/a/b'' \<and> startsWith (path_join ''/a/b'' []) ''/a/b''
   \<and> resolve (tree example_world) (path_join ''/a/b'' [])
       = Inr (Dir [(''a.txt'', File [116, 101, 115, 116]), (''b'', Dir [])])
   \<and> proper_entries [(''a.txt'', File [116, 101, 115, 116]), (''b'', Dir [])]
   \<and> fst (listFiles ''/a/b'' None example_world)
       = Inr [\<lparr>fi_name = ''a.txt'', fi_isDirectory = False, fi_size = 4\<rparr>,
              \<lparr>fi_name = ''b'', fi_isDirectory = True, fi_size = 0\<rparr>]"
proof -
  have a: "is_resolved ''/a/b''" by code_simp
  have b: "startsWith (path_join ''/a/b'' []) ''/a/b''" by code_simp
  have c: "resolve (tree example_world) (path_join ''/a/b'' [])
       = Inr (Dir [(''a.txt'', File [116, 101, 115, 116]), (''b'', Dir [])])" by code_simp
  have d: "proper_entries [(''a.txt'', File [116, 101, 115, 116]), (''b'', Dir [])]" by code_simp
  from listFiles_one_descriptor_per_child [OF a b c d, of "for_path ''x''"] a b c d
  show ?thesis by (simp add: is_dir_def)
qed

lemma total_size_children:
  assumes T: "normal_abs cs T" and es: "distinct (map fst es)"
  shows "resolve (tree w) T = Inr (Dir es) \<Longrightarrow> set xs \<subseteq> set es \<Longrightarrow>
         \<forall>e \<in> set xs. proper_name (fst e) \<Longrightarrow>
         fst (total_size T (map fst xs) acc w) = Inr (acc + sum_list (map (\<lambda>e. file_size (snd e)) xs))
         \<and> tree (snd (total_size T (map fst xs) acc w)) = tree w"
proof (induction xs arbitrary: w acc)
  case Nil
  then show ?case by simp
next
  case (Cons e xs)
  obtain n c where e: "e = (n, c)" by (cases e)
  have m: "map_of es n = Some c"
    using Cons.prems(2) es e by (intro map_of_is_SomeI) simp_all
  have pn: "proper_name n" using Cons.prems(3) e by simp
  let ?w = "called (Stat (path_join T n)) w"
  have s: "statSync (path_join T n) w = (Inr (stats_of c), ?w)"
    by (rule statSync_child [OF T Cons.prems(1) pn m])
  have r: "resolve (tree ?w) T = Inr (Dir es)" using Cons.prems(1) by simp
  have add: "(if st_isFile (stats_of c) then acc + st_size (stats_of c) else acc) = acc + file_size c"
    by (simp add: stats_of_def file_size_def split: node.splits)
  show ?case
    using Cons.IH [OF r, of "acc + file_size c"] Cons.prems(2,3)
    by (simp add: e and_then_Inr [OF s] add ac_simps)
qed

text \<open>
  C4. With the root a directory of entries \<open>es\<close>, \<^verbatim>\<open>getCacheInfo\<close> returns the root
  path, the number of entries (files and directories alike), the sum of the byte lengths
  of the entries that are regular files (a directory adds 0 and is not entered), and the
  first 50 names.
\<close>

theorem getCacheInfo_summary:
  assumes R: "is_resolved R"
    and dir: "resolve (tree w) R = Inr (Dir es)"
    and es: "proper_entries es"
  shows "fst (getCacheInfo R w)
           = Inr \<lparr>ci_path = R, ci_fileCount = length es,
                  ci_totalSize = sum_list (map (\<lambda>(n, c). case c of File bs \<Rightarrow> length bs | Dir _ \<Rightarrow> 0) es),
                  ci_files = take 50 (map fst es)\<rparr>
       \<and> tree (snd (getCacheInfo R w)) = tree w"
proof -
  have T: "normal_abs (normalizeString R False) R" by (rule is_resolved_normal [OF R])
  let ?w = "called (Readdir R) w"
  have dir': "resolve (tree ?w) R = Inr (Dir es)" using dir by simp
  let ?t = "total_size R (map fst es) 0 ?w"
  have t: "fst ?t = Inr (0 + sum_list (map (\<lambda>e. file_size (snd e)) es)) \<and> tree (snd ?t) = tree ?w"
    using es by (intro total_size_children [OF T _ dir'])
                (auto simp: proper_entries_def list_all_iff)
  then have t': "?t = (Inr (sum_list (map (\<lambda>e. file_size (snd e)) es)), snd ?t)"
    by (simp add: surj_outcome)
  have i: "map (\<lambda>e. file_size (snd e)) es
             = map (\<lambda>(n, c). case c of File bs \<Rightarrow> length bs | Dir _ \<Rightarrow> 0) es"
    by (simp add: file_size_def case_prod_unfold)
  show ?thesis
    unfolding getCacheInfo_def and_then_Inr [OF readdir_Dir [OF dir]] and_then_Inr [OF t']
    using t by (simp add: i)
qed

theorem getCacheInfo_summary_witness:
  "is_resolved ''/a/b''
   \<and> resolve (tree example_world) ''/a/b''
       = Inr (Dir [(''a.txt'', File [116, 101, 115, 116]), (''b'', Dir [])])
   \<and> proper_entries [(''a.txt'', File [116, 101, 115, 116]), (''b'', Dir [])]
   \<and> fst (getCacheInfo ''/a/b'' example_world)
       = Inr \<lparr>ci_path = ''/a/b'', ci_fileCount = 2, ci_totalSize = 4,
              ci_files = [''a.txt'', ''b'']\<rparr>"
proof -
  have a: "is_resolved ''/a/b''" by code_simp
  have c: "resolve (tree example_world) ''/a/b''
       = Inr (Dir [(''a.txt'', File [116, 101, 115, 116]), (''b'', Dir [])])" by code_simp
  have d: "proper_entries [(''a.txt'', File [116, 101, 115, 116]), (''b'', Dir [])]" by code_simp
  from getCacheInfo_summary [OF a c d] a c d
  show ?thesis by simp
qed

subsection \<open>Reading a file, and the base64 codec\<close>

lemma not_found_text: "str_includes (toLowerCase (message (not_found P))) ''not found''"
proof -
  let ?m = "toLowerCase (message (not_found P))"
  have lit: "toLowerCase ''File not found: '' = ''file not found: ''" by code_simp
  have app: "toLowerCase (a @ b) = toLowerCase a @ toLowerCase b" for a b
    by (simp add: toLowerCase_def)
  have "?m = ''file not found: '' @ toLowerCase P"
    by (simp only: not_found_def message.simps app lit)
  then have m: "?m = ''file '' @ ''not found'' @ '': '' @ toLowerCase P"
    by simp
  have d: "drop 5 (''file '' @ rest) = rest" for rest :: string by simp
  have t: "take 9 (''not found'' @ rest) = ''not found''" for rest :: string by simp
  have "take (length ''not found'') (drop 5 ?m) = ''not found''"
    unfolding m d using t by simp
  moreover have "5 < Suc (length ?m)" unfolding m by simp
  then have "5 \<in> set [0 ..< Suc (length ?m)]"
    by (simp only: set_upt atLeastLessThan_iff) simp
  ultimately show ?thesis unfolding str_includes_def list_ex_iff by blast
qed

text \<open>
  C6. For a path that passes the containment check, \<^verbatim>\<open>readFile\<close> throws the
  not-found error exactly when \<^verbatim>\<open>existsSync\<close> says the resolved path does not exist;
  the error's message contains "not found" in lower case. It succeeds exactly on a regular
  file, and then returns the base64 text of its bytes and their number.
\<close>

theorem readFile_not_found_iff_missing:
  assumes "startsWith (path_join R P) R"
  shows "(fst (readFile R (Some (ps\<lparr>p_filePath := Some P\<rparr>)) w) = Inl (not_found P)
            \<longleftrightarrow> \<not> fst (existsSync (path_join R P) w))
       \<and> str_includes (toLowerCase (message (not_found P))) ''not found''
       \<and> (\<forall>r. fst (readFile R (Some (ps\<lparr>p_filePath := Some P\<rparr>)) w) = Inr r
            \<longleftrightarrow> (\<exists>bs. resolve (tree w) (path_join R P) = Inr (File bs)
                      \<and> r = \<lparr>rd_data = base64_encode bs, rd_size = length bs\<rparr>))"
proof (intro conjI allI)
  show "fst (readFile R (Some (ps\<lparr>p_filePath := Some P\<rparr>)) w) = Inl (not_found P)
            \<longleftrightarrow> \<not> fst (existsSync (path_join R P) w)"
    using assms
    by (auto simp: readFile_def existsSync_def readFileSync_def and_then_def not_found_def
                   resolve_def Let_def
             split: sum.splits node.splits if_splits)
  show "str_includes (toLowerCase (message (not_found P))) ''not found''"
    by (rule not_found_text)
  show "fst (readFile R (Some (ps\<lparr>p_filePath := Some P\<rparr>)) w) = Inr r
            \<longleftrightarrow> (\<exists>bs. resolve (tree w) (path_join R P) = Inr (File bs)
                      \<and> r = \<lparr>rd_data = base64_encode bs, rd_size = length bs\<rparr>)" for r
    using assms
    by (auto simp: readFile_def existsSync_def readFileSync_def and_then_def Let_def
             split: sum.splits node.splits if_splits bool.splits)
qed

theorem readFile_not_found_iff_missing_witness:
  "startsWith (path_join ''/a/b'' ''missing.bin'') ''/a/b''
   \<and> \<not> fst (existsSync (path_join ''/a/b'' ''missing.bin'') example_world)
   \<and> fst (readFile ''/a/b'' (Some (for_path ''missing.bin'')) example_world)
       = Inl (Error ''File not found: missing.bin'')
   \<and> str_includes (toLowerCase ''File not found: missing.bin'') ''not found''"
proof -
  have g: "startsWith (path_join ''/a/b'' ''missing.bin'') ''/a/b''" by code_simp
  have e: "\<not> fst (existsSync (path_join ''/a/b'' ''missing.bin'') example_world)" by code_simp
  have p: "(for_path ''missing.bin'')\<lparr>p_filePath := Some ''missing.bin''\<rparr> = for_path ''missing.bin''"
    by (simp add: for_path_def)
  from readFile_not_found_iff_missing [OF g, of "for_path ''missing.bin''" example_world] g e p
  show ?thesis by (simp add: not_found_def)
qed

lemma b64_table:
  "list_all (\<lambda>n. unbase64 (b64_char n) = Some n \<and> b64_char n \<noteq> CHR ''='') [0 ..< 64]"
  by code_simp

lemma unbase64_b64_char:
  "unbase64 (b64_char n) = Some (n mod 64)" "b64_char n \<noteq> CHR ''=''"
proof -
  have "n mod 64 \<in> set [0 ..< 64]" by simp
  then have "unbase64 (b64_char (n mod 64)) = Some (n mod 64) \<and> b64_char (n mod 64) \<noteq> CHR ''=''"
    using b64_table unfolding list_all_iff by blast
  moreover have "b64_char (n mod 64) = b64_char n" by (simp add: b64_char_def)
  ultimately show "unbase64 (b64_char n) = Some (n mod 64)" "b64_char n \<noteq> CHR ''=''" by simp_all
qed

lemma sextets_b64_char: "sextets (b64_char n # cs) = n mod 64 # sextets cs"
  by (simp add: unbase64_b64_char)

lemma sextets_pad: "sextets (CHR ''='' # cs) = []"
  by simp

lemma byte_of_unat [simp]: "(of_nat (unat (a :: byte)) :: byte) = a"
  by simp

lemma unat_byte_less: "unat (a :: byte) < 256"
  using unsigned_less [of a] by simp

lemma regroup1:
  fixes x y :: nat
  assumes "x < 256" "y < 256"
  shows "(x div 4) mod 64 * 4 + ((x mod 4 * 16 + y div 16) mod 64) div 16 = x"
proof -
  have a: "x div 4 < 64" using assms by simp
  have b: "x mod 4 * 16 + y div 16 < 64" using assms by arith
  have c: "(x mod 4 * 16 + y div 16) div 16 = x mod 4" using assms by simp
  show ?thesis using a b c by simp
qed

lemma regroup2:
  fixes x y z :: nat
  assumes "x < 256" "y < 256" "z < 256"
  shows "((x mod 4 * 16 + y div 16) mod 64) mod 16 * 16 + ((y mod 16 * 4 + z div 64) mod 64) div 4 = y"
proof -
  have b: "x mod 4 * 16 + y div 16 < 64" using assms by arith
  have b': "(x mod 4 * 16 + y div 16) mod 16 = y div 16" using assms by simp
  have d: "y mod 16 * 4 + z div 64 < 64" using assms by arith
  have d': "(y mod 16 * 4 + z div 64) div 4 = y mod 16" using assms by simp
  show ?thesis using b b' d d' by simp
qed

lemma regroup3:
  fixes y z :: nat
  assumes "y < 256" "z < 256"
  shows "((y mod 16 * 4 + z div 64) mod 64) mod 4 * 64 + (z mod 64) mod 64 = z"
proof -
  have d: "y mod 16 * 4 + z div 64 < 64" using assms by arith
  have d': "(y mod 16 * 4 + z div 64) mod 4 = z div 64" using assms by simp
  show ?thesis using d d' by simp
qed

lemma base64_roundtrip: "base64_decode (base64_encode bs) = bs"
  unfolding base64_decode_def
proof (induction bs rule: base64_encode.induct)
  case 1
  then show ?case by simp
next
  case (2 a)
  show ?case
    using regroup1 [of "unat a" 0] unat_byte_less [of a]
    by (simp del: sextets.simps(2) add: sextets_b64_char sextets_pad)
next
  case (3 a b)
  show ?case
    using regroup1 [of "unat a" "unat b"] regroup2 [of "unat a" "unat b" 0]
      unat_byte_less [of a] unat_byte_less [of b]
    by (simp del: sextets.simps(2) add: sextets_b64_char sextets_pad)
next
  case (4 a b c bs)
  show ?case
    using regroup1 [of "unat a" "unat b"] regroup2 [of "unat a" "unat b" "unat c"]
      regroup3 [of "unat b" "unat c"] 4
      unat_byte_less [of a] unat_byte_less [of b] unat_byte_less [of c]
    by (simp del: sextets.simps(2) add: sextets_b64_char sextets_pad)
qed

subsection \<open>Writing a file\<close>

lemma map_of_update_same [simp]: "map_of (AList.update k v es) k = Some v"
  by (simp add: update_conv')

lemma mkdirp_then_write:
  "admits segs t \<Longrightarrow> segs \<noteq> [] \<Longrightarrow> \<forall>s \<in> set segs. length s \<le> NAME_MAX \<Longrightarrow>
   \<exists>t1 t2. mkdirp (butlast segs) t = Inr t1 \<and> write_node segs bs t1 = Inr t2
           \<and> lookup segs t2 = Inr (File bs)"
proof (induction segs arbitrary: t)
  case Nil
  then show ?case by simp
next
  case (Cons s ss)
  from Cons.prems(1) obtain es where t: "t = Dir es" by (cases t) simp_all
  have s: "\<not> NAME_MAX < length s" using Cons.prems(3) by (simp add: not_less)
  show ?case
  proof (cases "ss = []")
    case True
    then show ?thesis
      using Cons.prems(1) t s by (auto split: option.splits node.splits)
  next
    case False
    let ?c = "case map_of es s of None \<Rightarrow> Dir [] | Some c \<Rightarrow> c"
    have "admits ss ?c"
      using Cons.prems(1) t False by (cases "map_of es s"; cases ss) simp_all
    moreover have "\<forall>x \<in> set ss. length x \<le> NAME_MAX" using Cons.prems(3) by simp
    ultimately obtain t1 t2 where
      ih: "mkdirp (butlast ss) ?c = Inr t1" "write_node ss bs t1 = Inr t2"
          "lookup ss t2 = Inr (File bs)"
      using Cons.IH [of ?c] False by blast
    show ?thesis
      using ih False t s by simp
  qed
qed

lemma write_node_isl: "isl (write_node segs bs t) = isl (write_node segs bs' t)"
proof (induction segs arbitrary: t)
  case Nil
  then show ?case by (cases t) simp_all
next
  case (Cons s ss)
  show ?case
  proof (cases t)
    case (File x)
    then show ?thesis by simp
  next
    case (Dir es)
    show ?thesis
    proof (cases "map_of es s")
      case None
      then show ?thesis by (simp add: Dir)
    next
      case (Some c)
      with Cons.IH [of c] show ?thesis
        by (cases "write_node ss bs c"; cases "write_node ss bs' c") (simp_all add: Dir)
    qed
  qed
qed

lemma dirname_abs_path:
  assumes cs: "\<forall>s \<in> set cs. proper_name s" and ne: "cs \<noteq> []"
  shows "dirname (abs_path cs) = abs_path (butlast cs)"
    and "fs_segments (dirname (abs_path cs)) = butlast cs"
proof -
  obtain ds c where dc: "cs = ds @ [c]" using ne by (cases cs rule: rev_cases) auto
  have c: "c \<noteq> []" "CHR ''/'' \<notin> set c" using cs dc by (auto simp: proper_name_def)
  have ds: "\<forall>s \<in> set ds. proper_name s" using cs dc by simp
  have h: "hd (rev c) \<noteq> CHR ''/''" using c by (metis hd_rev last_in_set)
  have d1: "dropWhile (\<lambda>x. x = CHR ''/'') (rev c @ ys) = rev c @ ys" for ys
    using c h by (cases "rev c") simp_all
  have d2: "dropWhile (\<lambda>x. x \<noteq> CHR ''/'') (rev c @ ys) = dropWhile (\<lambda>x. x \<noteq> CHR ''/'') ys" for ys
    using c by (intro dropWhile_append2) auto
  show eq: "dirname (abs_path cs) = abs_path (butlast cs)"
  proof (cases "ds = []")
    case True
    have "dirname (abs_path cs) = ''/''"
      using d1 [of "[]"] d2 [of "[]"] by (simp add: dc True abs_path_def dirname_def Let_def)
    then show ?thesis by (simp add: dc True abs_path_def)
  next
    case False
    let ?p = "abs_path ds"
    have p: "abs_path cs = ?p @ CHR ''/'' # c"
      using False by (simp add: dc abs_path_def join_segs_snoc)
    have j: "join_segs ds \<noteq> []"
      using False ds join_segs_Nil_iff [of ds] by (auto simp: proper_name_def)
    have len: "length ?p \<ge> 2" using j by (cases "join_segs ds") (auto simp: abs_path_def)
    have tl: "tl (?p @ CHR ''/'' # c) = join_segs ds @ CHR ''/'' # c" by (simp add: abs_path_def)
    have after: "dropWhile (\<lambda>x. x \<noteq> CHR ''/'')
            (dropWhile (\<lambda>x. x = CHR ''/'') (rev (tl (?p @ CHR ''/'' # c))))
          = CHR ''/'' # rev (join_segs ds)"
      unfolding tl using d1 [of "CHR ''/'' # rev (join_segs ds)"] d2 [of "CHR ''/'' # rev (join_segs ds)"]
      by simp
    have l: "length (CHR ''/'' # rev (join_segs ds)) = length ?p" by (simp add: abs_path_def)
    have "dirname (abs_path cs) = ?p"
      unfolding p dirname_def Let_def after l using len j by (simp add: abs_path_def)
    then show ?thesis by (simp add: dc)
  qed
  have "\<forall>s \<in> set (butlast cs). proper_name s" using ds by (simp add: dc)
  then show "fs_segments (dirname (abs_path cs)) = butlast cs"
    using fs_segments_abs_path(1) [of "butlast cs"] by (simp add: eq)
qed

lemma normal_abs_no_slash:
  assumes "normal_abs cs T" "last T \<noteq> CHR ''/''"
  shows "T = abs_path cs" "cs \<noteq> []"
  using assms by (auto simp: normal_abs_def abs_path_def)

lemma writeFileSync_isl:
  "isl (fst (writeFileSync p buf w)) = isl (fst (writeFileSync p buf' w))"
  using write_node_isl [of "fs_segments p" buf "tree w" buf']
  by (auto simp: writeFileSync_def split: sum.splits)

lemma and_then_pair:
  "and_then (Inr x, w) k = k x w" "and_then (Inl e, w) k = (Inl e, w)"
  by (simp_all add: and_then_def)

lemma and_then_isl:
  "(\<And>x u. \<not> isl (fst (k x u))) \<Longrightarrow> isl (fst (and_then r k)) = isl (fst r)"
  by (cases r) (auto simp: and_then_def split: sum.splits)

lemma writeFile_payload_independent:
  "isl (fst (writeFile R (Some (ps\<lparr>p_filePath := Some P, p_data := Some d\<rparr>)) w))
     = isl (fst (writeFile R (Some (ps\<lparr>p_filePath := Some P, p_data := Some d'\<rparr>)) w))"
proof (cases "startsWith (path_join R P) R")
  case False
  then show ?thesis by (simp add: writeFile_def Let_def)
next
  case True
  let ?T = "path_join R P"
  obtain r w1 where m: "mkdirSync_recursive (dirname ?T) w = (r, w1)" by (cases "mkdirSync_recursive (dirname ?T) w")
  show ?thesis
  proof (cases r)
    case (Inl e)
    then show ?thesis using True m by (simp add: writeFile_def Let_def and_then_def)
  next
    case (Inr u)
    have "isl (fst (and_then (writeFileSync ?T (base64_decode x) w1)
                      (\<lambda>_ w2. (Inr \<lparr>written = length (base64_decode x)\<rparr>, w2))))
            = isl (fst (writeFileSync ?T (base64_decode x) w1))" for x
      by (rule and_then_isl) simp
    then show ?thesis
      using True m Inr writeFileSync_isl [of ?T "base64_decode d" w1 "base64_decode d'"]
      by (simp add: writeFile_def Let_def and_then_pair)
  qed
qed

lemma abs_path_butlast_prefix:
  "cs \<noteq> [] \<Longrightarrow> \<exists>rest. abs_path cs = abs_path (butlast cs) @ rest"
proof -
  assume "cs \<noteq> []"
  then obtain ds c where dc: "cs = ds @ [c]" by (cases cs rule: rev_cases) auto
  show ?thesis
    by (cases "ds = []") (simp_all add: dc abs_path_def join_segs_snoc)
qed

lemma path_ok_dirname:
  assumes cs: "\<forall>s \<in> set cs. proper_name s" and ne: "cs \<noteq> []" and ok: "path_ok (abs_path cs)"
  shows "\<not> has_null_byte (dirname (abs_path cs))" "\<not> PATH_MAX \<le> length (dirname (abs_path cs))"
    "\<forall>s \<in> set (butlast cs). length s \<le> NAME_MAX" "\<forall>s \<in> set cs. length s \<le> NAME_MAX"
proof -
  obtain rest where r: "abs_path cs = abs_path (butlast cs) @ rest"
    using abs_path_butlast_prefix [OF ne] by blast
  have d: "dirname (abs_path cs) = abs_path (butlast cs)" by (rule dirname_abs_path(1) [OF cs ne])
  have n: "CHR 0x00 \<notin> set (abs_path cs)" "length (abs_path cs) < PATH_MAX"
    using ok by (simp_all add: path_ok_def has_null_byte_def)
  have "set (abs_path (butlast cs)) \<subseteq> set (abs_path (butlast cs) @ rest)" by simp
  then have "set (abs_path (butlast cs)) \<subseteq> set (abs_path cs)" using r by simp
  then show "\<not> has_null_byte (dirname (abs_path cs))"
    using n(1) by (auto simp: d has_null_byte_def)
  have "length (abs_path (butlast cs)) \<le> length (abs_path (butlast cs) @ rest)" by simp
  then have "length (abs_path (butlast cs)) \<le> length (abs_path cs)" using r by simp
  then show "\<not> PATH_MAX \<le> length (dirname (abs_path cs))" using n(2) by (simp add: d)
  show all: "\<forall>s \<in> set cs. length s \<le> NAME_MAX"
    using ok fs_segments_abs_path(1) [OF cs] by (simp add: path_ok_def list_all_iff)
  then show "\<forall>s \<in> set (butlast cs). length s \<le> NAME_MAX"
    by (auto dest: in_set_butlastD)
qed

lemma writeFile_lands:
  assumes R: "is_resolved R"
    and guard: "startsWith (path_join R P) R"
    and adm: "admits_file (tree w) (path_join R P)"
    and ok: "path_ok (path_join R P)"
  shows "fst (writeFile R (Some (ps\<lparr>p_filePath := Some P, p_data := Some d\<rparr>)) w)
           = Inr \<lparr>written = length (base64_decode d)\<rparr>
       \<and> resolve (tree (snd (writeFile R (Some (ps\<lparr>p_filePath := Some P, p_data := Some d\<rparr>)) w)))
                  (path_join R P) = Inr (File (base64_decode d))"
proof -
  let ?T = "path_join R P"
  obtain cs where T: "normal_abs cs ?T"
    using path_join_normal is_resolved_absolute [OF R] by blast
  have last: "last ?T \<noteq> CHR ''/''" "?T \<noteq> []" using adm by (simp_all add: admits_file_def)
  have Tcs: "?T = abs_path cs" "cs \<noteq> []" using normal_abs_no_slash [OF T last(1)] by simp_all
  have pr: "\<forall>s \<in> set cs. proper_name s" using T by (simp add: normal_abs_def)
  have seg: "fs_segments ?T = cs" using normal_abs_facts(3) [OF T] .
  have dseg: "fs_segments (dirname ?T) = butlast cs"
    using dirname_abs_path(2) [OF pr Tcs(2)] Tcs(1) by simp
  have ok': "path_ok (abs_path cs)" using ok Tcs(1) by simp
  have okT: "\<not> has_null_byte ?T" "\<not> PATH_MAX \<le> length ?T"
    using ok by (simp_all add: path_ok_def)
  have okD: "\<not> has_null_byte (dirname ?T)" "\<not> PATH_MAX \<le> length (dirname ?T)"
    using path_ok_dirname(1,2) [OF pr Tcs(2) ok'] Tcs(1) by simp_all
  have "admits cs (tree w)" using adm seg by (simp add: admits_file_def)
  from mkdirp_then_write [OF this Tcs(2) path_ok_dirname(4) [OF pr Tcs(2) ok'], of "base64_decode d"]
  obtain t1 t2 where
    m: "mkdirp (butlast cs) (tree w) = Inr t1"
    and wr: "write_node cs (base64_decode d) t1 = Inr t2"
    and lk: "lookup cs t2 = Inr (File (base64_decode d))" by blast
  show ?thesis
    using guard last m wr lk okT okD
    by (simp add: writeFile_def Let_def and_then_def mkdirSync_recursive_def writeFileSync_def
                  dseg seg resolve_def)
qed

lemma readFile_of_file:
  assumes "startsWith (path_join R P) R" "resolve (tree w) (path_join R P) = Inr (File bs)"
  shows "fst (readFile R (Some (ps\<lparr>p_filePath := Some P\<rparr>)) w)
           = Inr \<lparr>rd_data = base64_encode bs, rd_size = length bs\<rparr>"
  using assms
  by (simp add: readFile_def existsSync_def readFileSync_def and_then_def Let_def)

text \<open>
  The write side refuses what the runtime and the system refuse: a path with a NUL
  character before anything is called (here after the parent directory was created), a
  name of 256 bytes, and a closing slash.
\<close>

lemma writeFile_refusals:
  "fst (writeFile ''/a/b''
          (Some \<lparr>p_subdir = None, p_filePath = Some [CHR ''x'', CHR 0x00, CHR ''y''],
                 p_data = Some ''dGVzdA=='', p_encoding = None\<rparr>)
          example_world)
     = Inl null_byte_error"
  "fst (writeFile ''/a/b''
          (Some \<lparr>p_subdir = None, p_filePath = Some (replicate 256 CHR ''n''),
                 p_data = Some ''dGVzdA=='', p_encoding = None\<rparr>)
          example_world)
     = Inl (SystemError ENAMETOOLONG ''open'' (Some (''/a/b/'' @ replicate 256 CHR ''n'')))"
  "fst (writeFile ''/a/b''
          (Some \<lparr>p_subdir = None, p_filePath = Some ''a.txt/'',
                 p_data = Some ''dGVzdA=='', p_encoding = None\<rparr>)
          example_world)
     = Inl (SystemError EISDIR ''open'' (Some ''/a/b/a.txt/''))"
  by code_simp+

text \<open>
  C3, as stated, fails on a path inside the root that names a directory: with the cache of
  the examples, \<^verbatim>\<open>writeFile\<close> to \<^verbatim>\<open>b\<close> passes the check and is refused by the
  filesystem, and the \<^verbatim>\<open>readFile\<close> after it fails too.
\<close>

theorem round_trip_fails_on_a_directory:
  "startsWith (path_join ''/a/b'' ''b'') ''/a/b''
   \<and> fst (writeFile ''/a/b''
            (Some \<lparr>p_subdir = None, p_filePath = Some ''b'',
                   p_data = Some (base64_encode [116, 101, 115, 116]), p_encoding = None\<rparr>)
            example_world)
       = Inl (SystemError EISDIR ''open'' (Some ''/a/b/b''))
   \<and> fst (readFile ''/a/b''
            (Some \<lparr>p_subdir = None, p_filePath = Some ''b'', p_data = None, p_encoding = None\<rparr>)
            (snd (writeFile ''/a/b''
                    (Some \<lparr>p_subdir = None, p_filePath = Some ''b'',
                           p_data = Some (base64_encode [116, 101, 115, 116]),
                           p_encoding = None\<rparr>)
                    example_world)))
       = Inl (SystemError EISDIR ''read'' None)"
  by code_simp

text \<open>
  C3, amended. For a path that passes the containment check and whose target the runtime
  and the system take (no NUL character, fewer than 4096 bytes, no name over 255 bytes) and
  can hold a regular file, and for every byte sequence \<open>bs\<close>: \<^verbatim>\<open>writeFile\<close> of the
  base64 text of \<open>bs\<close> succeeds and reports \<open>length bs\<close> bytes written, the
  \<^verbatim>\<open>readFile\<close> that follows succeeds with that text as \<^verbatim>\<open>data\<close> and \<open>length bs\<close>
  as \<^verbatim>\<open>size\<close>, and decoding the text gives \<open>bs\<close> back.
\<close>

theorem write_then_read_round_trip:
  assumes "is_resolved R"
    and "startsWith (path_join R P) R"
    and "admits_file (tree w) (path_join R P)"
    and "path_ok (path_join R P)"
  shows "fst (writeFile R (Some (ps\<lparr>p_filePath := Some P, p_data := Some (base64_encode bs)\<rparr>)) w)
           = Inr \<lparr>written = length bs\<rparr>
       \<and> fst (readFile R (Some (qs\<lparr>p_filePath := Some P\<rparr>))
                (snd (writeFile R
                        (Some (ps\<lparr>p_filePath := Some P, p_data := Some (base64_encode bs)\<rparr>)) w)))
           = Inr \<lparr>rd_data = base64_encode bs, rd_size = length bs\<rparr>
       \<and> base64_decode (base64_encode bs) = bs"
  using writeFile_lands [OF assms, where ps = ps and d = "base64_encode bs"]
    readFile_of_file [OF assms(2), where bs = bs and ps = qs]
  by (simp add: base64_roundtrip)

theorem write_then_read_round_trip_witness:
  "is_resolved ''/a/b''
   \<and> startsWith (path_join ''/a/b'' ''x/y/z.bin'') ''/a/b''
   \<and> admits_file (tree example_world) (path_join ''/a/b'' ''x/y/z.bin'')
   \<and> path_ok (path_join ''/a/b'' ''x/y/z.bin'')
   \<and> fst (writeFile ''/a/b''
            (Some ((for_path ''q'')\<lparr>p_filePath := Some ''x/y/z.bin'',
                                     p_data := Some (base64_encode [0, 255, 128, 10])\<rparr>))
            example_world)
       = Inr \<lparr>written = 4\<rparr>
   \<and> fst (readFile ''/a/b'' (Some ((for_path ''q'')\<lparr>p_filePath := Some ''x/y/z.bin''\<rparr>))
            (snd (writeFile ''/a/b''
                    (Some ((for_path ''q'')\<lparr>p_filePath := Some ''x/y/z.bin'',
                                             p_data := Some (base64_encode [0, 255, 128, 10])\<rparr>))
                    example_world)))
       = Inr \<lparr>rd_data = ''AP+ACg=='', rd_size = 4\<rparr>
   \<and> base64_decode ''AP+ACg=='' = [0, 255, 128, 10]"
proof -
  have a: "is_resolved ''/a/b''" by code_simp
  have b: "startsWith (path_join ''/a/b'' ''x/y/z.bin'') ''/a/b''" by code_simp
  have c: "admits_file (tree example_world) (path_join ''/a/b'' ''x/y/z.bin'')" by code_simp
  have d: "path_ok (path_join ''/a/b'' ''x/y/z.bin'')" by code_simp
  have e: "base64_encode [0, 255, 128, 10] = ''AP+ACg==''" by code_simp
  from write_then_read_round_trip [OF a b c d, where ps = "for_path ''q''"
         and bs = "[0, 255, 128, 10]" and qs = "for_path ''q''"]
    a b c d
  show ?thesis by (simp add: e del: base64_encode.simps)
qed

lemma sextets_skip:
  "unbase64 c = None \<Longrightarrow> c \<noteq> CHR ''='' \<Longrightarrow> sextets (xs @ c # ys) = sextets (xs @ ys)"
  by (induction xs) (simp_all split: option.splits)

text \<open>
  C10, as stated, fails where the path inside the root is the root itself: the write is
  refused whatever the payload.
\<close>

theorem write_to_the_root_is_refused:
  "path_join ''/a/b'' ''.'' = ''/a/b''
   \<and> startsWith (path_join ''/a/b'' ''.'') ''/a/b''
   \<and> fst (writeFile ''/a/b''
            (Some \<lparr>p_subdir = None, p_filePath = Some ''.'', p_data = Some ''%%%'',
                   p_encoding = None\<rparr>)
            example_world)
       = Inl (SystemError EISDIR ''open'' (Some ''/a/b''))"
  by code_simp

text \<open>
  C10, amended. \<^verbatim>\<open>writeFile\<close> never fails because of its payload: with any two strings
  as \<^verbatim>\<open>data\<close> it fails with both or with neither. For a path that passes the
  containment check and whose target the runtime and the system take (no NUL character,
  fewer than 4096 bytes, no name over 255 bytes) and can hold a regular file, it succeeds
  with every string, valid base64 or not, writes the leniently decoded bytes and returns
  their number as \<^verbatim>\<open>written\<close>. A character that is neither in the alphabet nor
  \<^verbatim>\<open>=\<close> changes nothing in what is decoded.
\<close>

theorem writeFile_accepts_any_payload:
  "(isl (fst (writeFile R (Some (ps\<lparr>p_filePath := Some P, p_data := Some d\<rparr>)) w))
      \<longleftrightarrow> isl (fst (writeFile R (Some (ps\<lparr>p_filePath := Some P, p_data := Some d'\<rparr>)) w)))
   \<and> (is_resolved R \<and> startsWith (path_join R P) R \<and> admits_file (tree w) (path_join R P)
        \<and> path_ok (path_join R P)
        \<longrightarrow> fst (writeFile R (Some (ps\<lparr>p_filePath := Some P, p_data := Some d\<rparr>)) w)
              = Inr \<lparr>written = length (base64_decode d)\<rparr>
            \<and> resolve (tree (snd (writeFile R (Some (ps\<lparr>p_filePath := Some P, p_data := Some d\<rparr>)) w)))
                       (path_join R P)
              = Inr (File (base64_decode d)))
   \<and> (unbase64 c = None \<and> c \<noteq> CHR ''=''
        \<longrightarrow> base64_decode (xs @ c # ys) = base64_decode (xs @ ys))"
proof (intro conjI impI)
  show "isl (fst (writeFile R (Some (ps\<lparr>p_filePath := Some P, p_data := Some d\<rparr>)) w))
      \<longleftrightarrow> isl (fst (writeFile R (Some (ps\<lparr>p_filePath := Some P, p_data := Some d'\<rparr>)) w))"
    by (rule writeFile_payload_independent)
next
  assume h: "is_resolved R \<and> startsWith (path_join R P) R \<and> admits_file (tree w) (path_join R P)
        \<and> path_ok (path_join R P)"
  then have l: "fst (writeFile R (Some (ps\<lparr>p_filePath := Some P, p_data := Some d\<rparr>)) w)
              = Inr \<lparr>written = length (base64_decode d)\<rparr>
            \<and> resolve (tree (snd (writeFile R (Some (ps\<lparr>p_filePath := Some P, p_data := Some d\<rparr>)) w)))
                       (path_join R P)
              = Inr (File (base64_decode d))"
    by (intro writeFile_lands) simp_all
  from l show "fst (writeFile R (Some (ps\<lparr>p_filePath := Some P, p_data := Some d\<rparr>)) w)
              = Inr \<lparr>written = length (base64_decode d)\<rparr>" by simp
  from l show "resolve (tree (snd (writeFile R (Some (ps\<lparr>p_filePath := Some P, p_data := Some d\<rparr>)) w)))
                       (path_join R P)
              = Inr (File (base64_decode d))" by simp
next
  assume "unbase64 c = None \<and> c \<noteq> CHR ''=''"
  then show "base64_decode (xs @ c # ys) = base64_decode (xs @ ys)"
    by (simp add: base64_decode_def sextets_skip)
qed

theorem writeFile_accepts_any_payload_witness:
  "is_resolved ''/a/b''
   \<and> startsWith (path_join ''/a/b'' ''new.bin'') ''/a/b''
   \<and> admits_file (tree example_world) (path_join ''/a/b'' ''new.bin'')
   \<and> path_ok (path_join ''/a/b'' ''new.bin'')
   \<and> unbase64 CHR ''!'' = None
   \<and> base64_decode (''dG'' @ CHR ''!'' # ''VzdA'') = base64_decode (''dG'' @ ''VzdA'')
   \<and> base64_decode ''d G!V*zdA'' = [116, 101, 115, 116]
   \<and> fst (writeFile ''/a/b''
            (Some ((for_path ''q'')\<lparr>p_filePath := Some ''new.bin'', p_data := Some ''d G!V*zdA''\<rparr>))
            example_world)
       = Inr \<lparr>written = 4\<rparr>
   \<and> resolve (tree (snd (writeFile ''/a/b''
            (Some ((for_path ''q'')\<lparr>p_filePath := Some ''new.bin'', p_data := Some ''d G!V*zdA''\<rparr>))
            example_world))) (path_join ''/a/b'' ''new.bin'')
       = Inr (File [116, 101, 115, 116])"
proof -
  have a: "is_resolved ''/a/b''" by code_simp
  have b: "startsWith (path_join ''/a/b'' ''new.bin'') ''/a/b''" by code_simp
  have c: "admits_file (tree example_world) (path_join ''/a/b'' ''new.bin'')" by code_simp
  have d: "path_ok (path_join ''/a/b'' ''new.bin'')" by code_simp
  have e: "base64_decode ''d G!V*zdA'' = [116, 101, 115, 116]" by code_simp
  have u: "unbase64 CHR ''!'' = None" "CHR ''!'' \<noteq> CHR ''=''" by code_simp+
  from writeFile_accepts_any_payload
         [where R = "''/a/b''" and ps = "for_path ''q''" and P = "''new.bin''"
            and d = "''d G!V*zdA''" and w = example_world and d' = "[]"
            and c = "CHR ''!''" and xs = "''dG''" and ys = "''VzdA''"]
    a b c d u
  show ?thesis by (simp add: e)
qed

end
